theory Spec2Isabelle
  imports Complex_Main "HOL-Library.Monad_Syntax"
begin

section \<open>The adaptive quadtree of \<^verbatim>\<open>g_star.py\<close>\<close>

text \<open>
  The development embeds the classes \<^verbatim>\<open>Node\<close> and \<^verbatim>\<open>FractalGrid\<close> of
  \<^verbatim>\<open>src/g_star.py\<close>. Python floats are idealised as the reals: coordinates, bounds,
  loads and thresholds have type \<^typ>\<open>real\<close>, so \<^verbatim>\<open>load / 4.0\<close> and \<^verbatim>\<open>load += 1.0\<close> are
  exact and no value is NaN or infinite. Python's unbounded integers (\<^verbatim>\<open>level\<close>,
  \<^verbatim>\<open>max_level\<close>) are \<^typ>\<open>int\<close>. The reentrant lock is left out: every public
  operation holds it from its first to its last statement, so each operation is one
  atomic step on the grid. The \<^verbatim>\<open>print\<close> calls are left out as well.

  Two embeddings are given. The first (this section) is purely functional: a node is a
  value that owns its children, a mutation returns the new tree, and a reference to a
  node inside the tree is the path of child indices that leads to it. It serves every
  property of the tree's shape and loads. The second (section \<open>Object store\<close>) keeps
  Python's objects in an explicit store and is used where object identity matters.
\<close>

subsection \<open>Errors and coordinate validation\<close>

text \<open>
  \<^verbatim>\<open>validate_coord\<close> raises \<^verbatim>\<open>ValueError("Coordinate must be in [0, 1).")\<close>; this is the
  error the specification calls \<open>InvalidCoordinate\<close>. Reading \<^verbatim>\<open>self.children.values()\<close>
  on a leaf (whose \<^verbatim>\<open>children\<close> is \<^verbatim>\<open>None\<close>) raises \<^verbatim>\<open>AttributeError\<close>.
\<close>

datatype error = ValueError | AttributeError

definition validate_coord :: "real \<Rightarrow> error + real" where
  "validate_coord x = (if 0 \<le> x \<and> x < 1 then Inr x else Inl ValueError)"

subsection \<open>Node\<close>

text \<open>
  The fields of \<^verbatim>\<open>Node.__init__\<close> in their order, without \<^verbatim>\<open>parent\<close>: the back reference
  is assigned in the constructor and read by no method. \<^verbatim>\<open>children\<close> is \<^verbatim>\<open>None\<close> or the
  dictionary \<^verbatim>\<open>{0: .., 1: .., 2: .., 3: ..}\<close>; every use of the dictionary goes through
  \<^verbatim>\<open>.values()\<close>, which yields the children in insertion order, so the dictionary is the
  list of its values.
\<close>

datatype Node = Node (x_min: real) (y_min: real) (x_max: real) (y_max: real)
  (level: int) (children: "Node list option") (load: real)

definition Node_init :: "real \<Rightarrow> real \<Rightarrow> real \<Rightarrow> real \<Rightarrow> int \<Rightarrow> Node" where
  "Node_init x0 y0 x1 y1 l = Node x0 y0 x1 y1 l None 0"

definition set_load :: "Node \<Rightarrow> real \<Rightarrow> Node" where
  "set_load n v = Node (x_min n) (y_min n) (x_max n) (y_max n) (level n) (children n) v"

definition set_children :: "Node \<Rightarrow> Node list option \<Rightarrow> Node" where
  "set_children n cs = Node (x_min n) (y_min n) (x_max n) (y_max n) (level n) cs (load n)"

definition is_leaf :: "Node \<Rightarrow> bool" where
  "is_leaf n \<longleftrightarrow> children n = None"

definition contains :: "Node \<Rightarrow> real \<Rightarrow> real \<Rightarrow> bool" where
  "contains n x y \<longleftrightarrow> x_min n \<le> x \<and> x < x_max n \<and> y_min n \<le> y \<and> y < y_max n"

definition subdivide :: "Node \<Rightarrow> Node" where
  "subdivide n =
     (let mid_x = (x_min n + x_max n) / 2;
          mid_y = (y_min n + y_max n) / 2;
          kids = [Node_init (x_min n) (y_min n) mid_x mid_y (level n + 1),
                  Node_init mid_x (y_min n) (x_max n) mid_y (level n + 1),
                  Node_init (x_min n) mid_y mid_x (y_max n) (level n + 1),
                  Node_init mid_x mid_y (x_max n) (y_max n) (level n + 1)];
          distributed_load = load n / 4
      in set_load (set_children n (Some (map (\<lambda>child. set_load child distributed_load) kids))) 0)"

definition can_merge :: "Node \<Rightarrow> real \<Rightarrow> bool" where
  "can_merge n merge_threshold =
     (case children n of
        None \<Rightarrow> False
      | Some cs \<Rightarrow>
          (let total = sum_list (map load cs)
           in if list_ex (\<lambda>child. \<not> is_leaf child) cs then False
              else total < merge_threshold))"

definition merge :: "Node \<Rightarrow> error + Node" where
  "merge n =
     (case children n of
        None \<Rightarrow> Inl AttributeError
      | Some cs \<Rightarrow>
          (let total_load = sum_list (map load cs)
           in Inr (set_load (set_children n None) total_load)))"

subsection \<open>References into the tree\<close>

text \<open>
  \<^verbatim>\<open>_find_leaf\<close> returns a node object that \<^verbatim>\<open>get\<close> and \<^verbatim>\<open>set\<close> then mutate in place. In
  the functional embedding the returned reference is the path from the start node: the
  list of the indices of the children followed. \<open>node_at\<close> reads the node a path leads
  to, \<open>update_at\<close> replaces it by its image under a function.
\<close>

fun first_index :: "('a \<Rightarrow> bool) \<Rightarrow> 'a list \<Rightarrow> nat option" where
  "first_index P [] = None"
| "first_index P (c # cs) = (if P c then Some 0 else map_option Suc (first_index P cs))"

primrec node_at :: "Node \<Rightarrow> nat list \<Rightarrow> Node" where
  "node_at n [] = n"
| "node_at n (i # p) =
     (case children n of
        None \<Rightarrow> n
      | Some cs \<Rightarrow> if i < length cs then node_at (cs ! i) p else n)"

primrec update_at :: "(Node \<Rightarrow> Node) \<Rightarrow> nat list \<Rightarrow> Node \<Rightarrow> Node" where
  "update_at f [] n = f n"
| "update_at f (i # p) n =
     (case children n of
        None \<Rightarrow> n
      | Some cs \<Rightarrow>
          if i < length cs then set_children n (Some (cs[i := update_at f p (cs ! i)]))
          else n)"

subsection \<open>FractalGrid\<close>

record FractalGrid =
  root :: Node
  max_level :: int
  split_threshold :: real
  merge_threshold :: real
  decay_factor :: real
  decay_interval :: real

definition FractalGrid_init ::
  "real \<Rightarrow> real \<Rightarrow> real \<Rightarrow> real \<Rightarrow> int \<Rightarrow> real \<Rightarrow> real \<Rightarrow> real \<Rightarrow> real \<Rightarrow> FractalGrid" where
  "FractalGrid_init x0 y0 x1 y1 ml st mt df di =
     \<lparr>root = Node_init x0 y0 x1 y1 0, max_level = ml, split_threshold = st,
      merge_threshold = mt, decay_factor = df, decay_interval = di\<rparr>"

text \<open>The constructor's default arguments.\<close>

definition FractalGrid_default :: FractalGrid where
  "FractalGrid_default = FractalGrid_init 0 0 1 1 6 5 2 (9 / 10) 1"

text \<open>
  \<^verbatim>\<open>_find_leaf\<close>: while the current node is internal, move to the first child that
  contains the point; when no child does, stop at the internal node.
\<close>

function find_leaf :: "Node \<Rightarrow> real \<Rightarrow> real \<Rightarrow> nat list" where
  "find_leaf (Node a b c d l None ld) x y = []"
| "find_leaf (Node a b c d l (Some cs) ld) x y =
     (case first_index (\<lambda>child. contains child x y) cs of
        None \<Rightarrow> []
      | Some i \<Rightarrow> i # find_leaf (cs ! i) x y)"
  by pat_completeness auto
termination
proof (relation "measure (\<lambda>(n, x, y). size n)")
  show "wf (measure (\<lambda>(n, x, y). size n))" by simp
next
  fix a b c d :: real and l :: int and cs :: "Node list" and ld x y :: real and i :: nat
  assume found: "first_index (\<lambda>child. contains child x y) cs = Some i"
  have less: "first_index P ds = Some j \<Longrightarrow> j < length ds"
    for P :: "Node \<Rightarrow> bool" and ds j
  proof (induction ds arbitrary: j)
    case Nil
    then show ?case by simp
  next
    case (Cons e ds)
    show ?case
    proof (cases "P e")
      case True
      with Cons.prems show ?thesis by simp
    next
      case False
      with Cons.prems obtain k where k: "first_index P ds = Some k" and j: "j = Suc k"
        by auto
      from k have "k < length ds" by (rule Cons.IH)
      with j show ?thesis by simp
    qed
  qed
  from found have "i < length cs" by (rule less)
  then have "cs ! i \<in> set cs" by (rule nth_mem)
  then have "size (cs ! i) \<le> size_list size cs" by (rule size_list_estimation') simp
  then show "((cs ! i, x, y), (Node a b c d l (Some cs) ld, x, y))
      \<in> measure (\<lambda>(n, x, y). size n)"
    by simp
qed

text \<open>
  \<^verbatim>\<open>get\<close> and \<^verbatim>\<open>set\<close> return the outcome together with the grid as the call leaves it,
  also when the call raises. \<open>add_load\<close> is the statement \<^verbatim>\<open>leaf.load += 1.0\<close>.
\<close>

definition add_load :: "Node \<Rightarrow> Node" where
  "add_load leaf = set_load leaf (load leaf + 1)"

definition get :: "FractalGrid \<Rightarrow> real \<Rightarrow> real \<Rightarrow> (error + real) \<times> FractalGrid" where
  "get g x y =
     (case validate_coord x of
        Inl e \<Rightarrow> (Inl e, g)
      | Inr x \<Rightarrow>
          (case validate_coord y of
             Inl e \<Rightarrow> (Inl e, g)
           | Inr y \<Rightarrow>
               (let leaf = find_leaf (root g) x y;
                    r = update_at add_load leaf (root g)
                in (Inr (load (node_at r leaf)), g\<lparr>root := r\<rparr>))))"

definition rebalance :: "FractalGrid \<Rightarrow> Node \<Rightarrow> Node" where
  "rebalance g n =
     (if load n > split_threshold g \<and> level n < max_level g \<and> is_leaf n
      then subdivide n else n)"

definition set_grid :: "FractalGrid \<Rightarrow> real \<Rightarrow> real \<Rightarrow> (error + unit) \<times> FractalGrid" where
  "set_grid g x y =
     (case validate_coord x of
        Inl e \<Rightarrow> (Inl e, g)
      | Inr x \<Rightarrow>
          (case validate_coord y of
             Inl e \<Rightarrow> (Inl e, g)
           | Inr y \<Rightarrow>
               (let leaf = find_leaf (root g) x y;
                    r = update_at add_load leaf (root g)
                in (Inr (), g\<lparr>root := update_at (rebalance g) leaf r\<rparr>))))"

text \<open>
  \<^verbatim>\<open>_merge_repeatedly\<close>: the four recursive calls first, then \<^verbatim>\<open>can_merge\<close> on the node
  with its processed children. An error of a recursive call or of \<^verbatim>\<open>merge\<close> ends the
  sweep, as the exception would.
\<close>

fun sequence :: "(error + 'a) list \<Rightarrow> error + 'a list" where
  "sequence [] = Inr []"
| "sequence (r # rs) =
     (case r of
        Inl e \<Rightarrow> Inl e
      | Inr v \<Rightarrow> (case sequence rs of Inl e \<Rightarrow> Inl e | Inr vs \<Rightarrow> Inr (v # vs)))"

fun merge_repeatedly :: "real \<Rightarrow> Node \<Rightarrow> error + Node" where
  "merge_repeatedly mt (Node a b c d l None ld) = Inr (Node a b c d l None ld)"
| "merge_repeatedly mt (Node a b c d l (Some cs) ld) =
     (case sequence (map (merge_repeatedly mt) cs) of
        Inl e \<Rightarrow> Inl e
      | Inr cs' \<Rightarrow>
          (let node = Node a b c d l (Some cs') ld
           in if can_merge node mt then merge node else Inr node))"

definition periodic_rebalance :: "FractalGrid \<Rightarrow> error + FractalGrid" where
  "periodic_rebalance g =
     (case merge_repeatedly (merge_threshold g) (root g) of
        Inl e \<Rightarrow> Inl e
      | Inr r \<Rightarrow> Inr (g\<lparr>root := r\<rparr>))"

text \<open>
  The two statements of the inner function \<^verbatim>\<open>decay\<close> on a leaf,
  \<^verbatim>\<open>n.load *= decay_factor\<close> and \<^verbatim>\<open>if n.load < 1e-6: n.load = 0.0\<close>, as a function of the
  load.
\<close>

definition decayed :: "real \<Rightarrow> real \<Rightarrow> real" where
  "decayed f ld = (let ld' = ld * f in if ld' < 1 / 1000000 then 0 else ld')"

fun decay :: "real \<Rightarrow> Node \<Rightarrow> Node" where
  "decay f (Node a b c d l None ld) = Node a b c d l None (decayed f ld)"
| "decay f (Node a b c d l (Some cs) ld) = Node a b c d l (Some (map (decay f) cs)) ld"

definition decay_load :: "FractalGrid \<Rightarrow> real \<Rightarrow> FractalGrid" where
  "decay_load g f = g\<lparr>root := decay f (root g)\<rparr>"

text \<open>
  \<^verbatim>\<open>get_leaves\<close> in the functional embedding lists the leaf values. What the Python
  function returns are the leaf objects themselves; that is the subject of the store
  embedding below.
\<close>

fun gather :: "Node \<Rightarrow> Node list" where
  "gather (Node a b c d l None ld) = [Node a b c d l None ld]"
| "gather (Node a b c d l (Some cs) ld) = concat (map gather cs)"

definition get_leaves :: "FractalGrid \<Rightarrow> Node list" where
  "get_leaves g = gather (root g)"

subsection \<open>Sequences of operations\<close>

text \<open>
  The public operations as data, and the grid after a sequence of calls. A call of
  \<^verbatim>\<open>get\<close> or \<^verbatim>\<open>set\<close> that raises leaves the grid it returns; \<^verbatim>\<open>get_leaves\<close> assigns to
  nothing. The \<open>Inl\<close> case of \<open>periodic_rebalance\<close> is listed for completeness only:
  lemma \<open>periodic_rebalance_returns\<close> below shows that the sweep never raises.
\<close>

datatype operation =
  Get real real | Set real real | PeriodicRebalance | DecayLoad real | GetLeaves

fun exec :: "FractalGrid \<Rightarrow> operation \<Rightarrow> FractalGrid" where
  "exec g (Get x y) = snd (get g x y)"
| "exec g (Set x y) = snd (set_grid g x y)"
| "exec g PeriodicRebalance = (case periodic_rebalance g of Inl e \<Rightarrow> g | Inr g' \<Rightarrow> g')"
| "exec g (DecayLoad f) = decay_load g f"
| "exec g GetLeaves = g"

definition run :: "FractalGrid \<Rightarrow> operation list \<Rightarrow> FractalGrid" where
  "run g ops = foldl exec g ops"

subsection \<open>Vocabulary of the properties\<close>

text \<open>All nodes of a tree, parents before children.\<close>

fun nodes :: "Node \<Rightarrow> Node list" where
  "nodes (Node a b c d l None ld) = [Node a b c d l None ld]"
| "nodes (Node a b c d l (Some cs) ld) = Node a b c d l (Some cs) ld # concat (map nodes cs)"

text \<open>A path that \<open>node_at\<close> can follow to its end.\<close>

primrec valid_path :: "Node \<Rightarrow> nat list \<Rightarrow> bool" where
  "valid_path n [] = True"
| "valid_path n (i # p) =
     (case children n of
        None \<Rightarrow> False
      | Some cs \<Rightarrow> i < length cs \<and> valid_path (cs ! i) p)"

text \<open>
  The cell of a node (its bounds and level), and the four cells \<^verbatim>\<open>subdivide\<close> gives to
  the children of a node: lower left, lower right, upper left, upper right.
\<close>

definition cell :: "Node \<Rightarrow> real \<times> real \<times> real \<times> real \<times> int" where
  "cell n = (x_min n, y_min n, x_max n, y_max n, level n)"

definition quadrants :: "Node \<Rightarrow> (real \<times> real \<times> real \<times> real \<times> int) list" where
  "quadrants n =
     (let mid_x = (x_min n + x_max n) / 2;
          mid_y = (y_min n + y_max n) / 2
      in [(x_min n, y_min n, mid_x, mid_y, level n + 1),
          (mid_x, y_min n, x_max n, mid_y, level n + 1),
          (x_min n, mid_y, mid_x, y_max n, level n + 1),
          (mid_x, mid_y, x_max n, y_max n, level n + 1)])"

text \<open>
  What holds of each single node in the trees the grid builds: an internal node has
  exactly the four quadrant cells as children (\<open>shape_ok\<close>), loads are not negative and
  internal nodes carry none (\<open>load_ok\<close>), and children lie within the depth cap
  (\<open>depth_ok\<close>).
\<close>

definition shape_ok :: "Node \<Rightarrow> bool" where
  "shape_ok n = (case children n of None \<Rightarrow> True | Some cs \<Rightarrow> map cell cs = quadrants n)"

definition load_nonneg :: "Node \<Rightarrow> bool" where
  "load_nonneg n \<longleftrightarrow> 0 \<le> load n"

definition load_ok :: "Node \<Rightarrow> bool" where
  "load_ok n \<longleftrightarrow> 0 \<le> load n \<and> (is_leaf n \<or> load n = 0)"

definition depth_ok :: "int \<Rightarrow> Node \<Rightarrow> bool" where
  "depth_ok ml n =
     (case children n of None \<Rightarrow> True | Some cs \<Rightarrow> list_all (\<lambda>child. level child \<le> ml) cs)"

text \<open>A node predicate that looks at the node's own fields and at the cells of its
  children only.\<close>

definition local_pred :: "(Node \<Rightarrow> bool) \<Rightarrow> bool" where
  "local_pred P \<longleftrightarrow>
     (\<forall>n cs cs'. P n \<longrightarrow> children n = Some cs \<longrightarrow> map cell cs' = map cell cs
        \<longrightarrow> P (set_children n (Some cs')))"

text \<open>A tree of uniform depth two: the root and its four children are internal, the
  sixteen grandchildren are leaves with load \<open>1 / 16\<close> each.\<close>

definition two_level :: Node where
  "two_level = Node 0 0 1 1 0
     (Some [subdivide (Node 0 0 (1 / 2) (1 / 2) 1 None (1 / 4)),
            subdivide (Node (1 / 2) 0 1 (1 / 2) 1 None (1 / 4)),
            subdivide (Node 0 (1 / 2) (1 / 2) 1 1 None (1 / 4)),
            subdivide (Node (1 / 2) (1 / 2) 1 1 1 None (1 / 4))]) 0"

text \<open>Coordinates that pass \<^verbatim>\<open>validate_coord\<close>.\<close>

definition valid_xy :: "real \<Rightarrow> real \<Rightarrow> bool" where
  "valid_xy x y \<longleftrightarrow> 0 \<le> x \<and> x < 1 \<and> 0 \<le> y \<and> y < 1"

section \<open>Object store\<close>

text \<open>
  The second embedding keeps Python's objects. A reference is an address, the store is
  the list of all \<^verbatim>\<open>Node\<close> objects ever created (an address is an index into it, so a new
  object gets the next free address), and a variable that holds a node holds its address.
  An operation returns \<open>None\<close> when it yields no result: a traversal has used up its
  \<open>fuel\<close> (the bound on loop iterations and recursion depth), or an address is not
  allocated, which no Python program can produce. Exceptions are values as before.
\<close>

subsection \<open>Node objects\<close>

text \<open>
  A \<^verbatim>\<open>Node\<close> object has the eight attributes that \<^verbatim>\<open>__init__\<close> sets; \<^verbatim>\<open>parent\<close> and the
  values of the \<^verbatim>\<open>children\<close> dict (keys 0 to 3, in insertion order) are addresses.
  \<open>Node_obj\<close> is the constructor call: it allocates the object and returns its address.
  An assignment to an attribute updates the store at the object's address, so it is seen
  through every copy of the address.
\<close>

record NodeObj =
  obj_x_min :: real
  obj_y_min :: real
  obj_x_max :: real
  obj_y_max :: real
  obj_level :: int
  obj_parent :: "nat option"
  obj_children :: "nat list option"
  obj_load :: real

type_synonym store = "NodeObj list"

definition deref :: "store \<Rightarrow> nat \<Rightarrow> NodeObj option" where
  "deref s r = (if r < length s then Some (s ! r) else None)"

definition Node_obj ::
  "store \<Rightarrow> real \<Rightarrow> real \<Rightarrow> real \<Rightarrow> real \<Rightarrow> int \<Rightarrow> nat option \<Rightarrow> nat \<times> store" where
  "Node_obj s x0 y0 x1 y1 l p =
     (length s,
      s @ [\<lparr>obj_x_min = x0, obj_y_min = y0, obj_x_max = x1, obj_y_max = y1, obj_level = l,
            obj_parent = p, obj_children = None, obj_load = 0\<rparr>])"

definition is_leaf_obj :: "store \<Rightarrow> nat \<Rightarrow> bool option" where
  "is_leaf_obj s r = do { n \<leftarrow> deref s r; Some (obj_children n = None) }"

definition contains_obj :: "store \<Rightarrow> nat \<Rightarrow> real \<Rightarrow> real \<Rightarrow> bool option" where
  "contains_obj s r x y =
     do { n \<leftarrow> deref s r;
          Some (obj_x_min n \<le> x \<and> x < obj_x_max n \<and> obj_y_min n \<le> y \<and> y < obj_y_max n) }"

definition set_load_obj :: "store \<Rightarrow> nat \<Rightarrow> real \<Rightarrow> store option" where
  "set_load_obj s r v = do { n \<leftarrow> deref s r; Some (s[r := n\<lparr>obj_load := v\<rparr>]) }"

definition set_children_obj :: "store \<Rightarrow> nat \<Rightarrow> nat list option \<Rightarrow> store option" where
  "set_children_obj s r cs = do { n \<leftarrow> deref s r; Some (s[r := n\<lparr>obj_children := cs\<rparr>]) }"

fun for_each :: "(store \<Rightarrow> nat \<Rightarrow> store option) \<Rightarrow> store \<Rightarrow> nat list \<Rightarrow> store option" where
  "for_each f s [] = Some s"
| "for_each f s (c # cs) = do { s' \<leftarrow> f s c; for_each f s' cs }"

definition subdivide_obj :: "store \<Rightarrow> nat \<Rightarrow> store option" where
  "subdivide_obj s r =
     do { n \<leftarrow> deref s r;
          let mid_x = (obj_x_min n + obj_x_max n) / 2;
          let mid_y = (obj_y_min n + obj_y_max n) / 2;
          let (c0, s0) = Node_obj s (obj_x_min n) (obj_y_min n) mid_x mid_y (obj_level n + 1) (Some r);
          let (c1, s1) = Node_obj s0 mid_x (obj_y_min n) (obj_x_max n) mid_y (obj_level n + 1) (Some r);
          let (c2, s2) = Node_obj s1 (obj_x_min n) mid_y mid_x (obj_y_max n) (obj_level n + 1) (Some r);
          let (c3, s3) = Node_obj s2 mid_x mid_y (obj_x_max n) (obj_y_max n) (obj_level n + 1) (Some r);
          let kids = [c0, c1, c2, c3];
          s4 \<leftarrow> set_children_obj s3 r (Some kids);
          let distributed_load = obj_load n / 4;
          s5 \<leftarrow> for_each (\<lambda>s child. set_load_obj s child distributed_load) s4 kids;
          set_load_obj s5 r 0 }"

definition can_merge_obj :: "store \<Rightarrow> nat \<Rightarrow> real \<Rightarrow> bool option" where
  "can_merge_obj s r threshold =
     do { n \<leftarrow> deref s r;
          case obj_children n of
            None \<Rightarrow> Some False
          | Some cs \<Rightarrow>
              do { kids \<leftarrow> those (map (deref s) cs);
                   let total = sum_list (map obj_load kids);
                   Some (if list_ex (\<lambda>child. obj_children child \<noteq> None) kids then False
                         else total < threshold) } }"

definition merge_obj :: "store \<Rightarrow> nat \<Rightarrow> (error + store) option" where
  "merge_obj s r =
     do { n \<leftarrow> deref s r;
          case obj_children n of
            None \<Rightarrow> Some (Inl AttributeError)
          | Some cs \<Rightarrow>
              do { kids \<leftarrow> those (map (deref s) cs);
                   let total_load = sum_list (map obj_load kids);
                   Some (Inr (s[r := n\<lparr>obj_children := None, obj_load := total_load\<rparr>])) } }"

subsection \<open>FractalGrid over the store\<close>

text \<open>
  The grid holds the address of its root and, here, the store itself. The methods are
  those of the functional embedding statement by statement, reading and writing
  attributes through addresses. \<open>find_leaf_obj\<close> spends one unit of fuel for each
  iteration of the \<^verbatim>\<open>while\<close> loop; \<open>merge_repeatedly_obj\<close>, \<open>decay_obj\<close> and \<open>gather_obj\<close> one
  for each level of recursion. \<open>gather_obj\<close> returns \<^verbatim>\<open>[n]\<close> for a leaf \<^verbatim>\<open>n\<close>: the list holds
  the address of the object, as the Python list holds the object.
\<close>

record FractalGrid_obj =
  root_ref :: nat
  heap :: store
  max_level_obj :: int
  split_threshold_obj :: real
  merge_threshold_obj :: real
  decay_factor_obj :: real
  decay_interval_obj :: real

definition FractalGrid_obj_init ::
  "real \<Rightarrow> real \<Rightarrow> real \<Rightarrow> real \<Rightarrow> int \<Rightarrow> real \<Rightarrow> real \<Rightarrow> real \<Rightarrow> real \<Rightarrow> FractalGrid_obj" where
  "FractalGrid_obj_init x0 y0 x1 y1 ml st mt df di =
     (let (r, s) = Node_obj [] x0 y0 x1 y1 0 None
      in \<lparr>root_ref = r, heap = s, max_level_obj = ml, split_threshold_obj = st,
          merge_threshold_obj = mt, decay_factor_obj = df, decay_interval_obj = di\<rparr>)"

fun first_containing :: "store \<Rightarrow> nat list \<Rightarrow> real \<Rightarrow> real \<Rightarrow> nat option option" where
  "first_containing s [] x y = Some None"
| "first_containing s (child # cs) x y =
     do { hit \<leftarrow> contains_obj s child x y;
          if hit then Some (Some child) else first_containing s cs x y }"

fun find_leaf_obj :: "nat \<Rightarrow> store \<Rightarrow> nat \<Rightarrow> real \<Rightarrow> real \<Rightarrow> nat option" where
  "find_leaf_obj 0 s current x y = None"
| "find_leaf_obj (Suc fuel) s current x y =
     do { n \<leftarrow> deref s current;
          case obj_children n of
            None \<Rightarrow> Some current
          | Some cs \<Rightarrow>
              do { found \<leftarrow> first_containing s cs x y;
                   case found of
                     None \<Rightarrow> Some current
                   | Some child \<Rightarrow> find_leaf_obj fuel s child x y } }"

definition get_obj ::
  "nat \<Rightarrow> FractalGrid_obj \<Rightarrow> real \<Rightarrow> real \<Rightarrow> ((error + real) \<times> FractalGrid_obj) option" where
  "get_obj fuel g x y =
     (case validate_coord x of
        Inl e \<Rightarrow> Some (Inl e, g)
      | Inr x \<Rightarrow>
          (case validate_coord y of
             Inl e \<Rightarrow> Some (Inl e, g)
           | Inr y \<Rightarrow>
               do { leaf \<leftarrow> find_leaf_obj fuel (heap g) (root_ref g) x y;
                    n \<leftarrow> deref (heap g) leaf;
                    s \<leftarrow> set_load_obj (heap g) leaf (obj_load n + 1);
                    n' \<leftarrow> deref s leaf;
                    Some (Inr (obj_load n'), g\<lparr>heap := s\<rparr>) }))"

definition rebalance_obj :: "FractalGrid_obj \<Rightarrow> store \<Rightarrow> nat \<Rightarrow> store option" where
  "rebalance_obj g s node =
     do { n \<leftarrow> deref s node;
          if obj_load n > split_threshold_obj g \<and> obj_level n < max_level_obj g
             \<and> obj_children n = None
          then subdivide_obj s node else Some s }"

definition set_obj ::
  "nat \<Rightarrow> FractalGrid_obj \<Rightarrow> real \<Rightarrow> real \<Rightarrow> ((error + unit) \<times> FractalGrid_obj) option" where
  "set_obj fuel g x y =
     (case validate_coord x of
        Inl e \<Rightarrow> Some (Inl e, g)
      | Inr x \<Rightarrow>
          (case validate_coord y of
             Inl e \<Rightarrow> Some (Inl e, g)
           | Inr y \<Rightarrow>
               do { leaf \<leftarrow> find_leaf_obj fuel (heap g) (root_ref g) x y;
                    n \<leftarrow> deref (heap g) leaf;
                    s \<leftarrow> set_load_obj (heap g) leaf (obj_load n + 1);
                    s' \<leftarrow> rebalance_obj g s leaf;
                    Some (Inr (), g\<lparr>heap := s'\<rparr>) }))"

fun sweep_children ::
  "(store \<Rightarrow> nat \<Rightarrow> (error + store) option) \<Rightarrow> store \<Rightarrow> nat list \<Rightarrow> (error + store) option" where
  "sweep_children f s [] = Some (Inr s)"
| "sweep_children f s (child # cs) =
     (case f s child of
        None \<Rightarrow> None
      | Some (Inl e) \<Rightarrow> Some (Inl e)
      | Some (Inr s') \<Rightarrow> sweep_children f s' cs)"

fun merge_repeatedly_obj :: "nat \<Rightarrow> real \<Rightarrow> store \<Rightarrow> nat \<Rightarrow> (error + store) option" where
  "merge_repeatedly_obj 0 mt s node = None"
| "merge_repeatedly_obj (Suc fuel) mt s node =
     do { n \<leftarrow> deref s node;
          case obj_children n of
            None \<Rightarrow> Some (Inr s)
          | Some cs \<Rightarrow>
              (case sweep_children (merge_repeatedly_obj fuel mt) s cs of
                 None \<Rightarrow> None
               | Some (Inl e) \<Rightarrow> Some (Inl e)
               | Some (Inr s') \<Rightarrow>
                   do { can \<leftarrow> can_merge_obj s' node mt;
                        if can then merge_obj s' node else Some (Inr s') }) }"

definition periodic_rebalance_obj ::
  "nat \<Rightarrow> FractalGrid_obj \<Rightarrow> (error + FractalGrid_obj) option" where
  "periodic_rebalance_obj fuel g =
     (case merge_repeatedly_obj fuel (merge_threshold_obj g) (heap g) (root_ref g) of
        None \<Rightarrow> None
      | Some (Inl e) \<Rightarrow> Some (Inl e)
      | Some (Inr s) \<Rightarrow> Some (Inr (g\<lparr>heap := s\<rparr>)))"

fun decay_obj :: "nat \<Rightarrow> real \<Rightarrow> store \<Rightarrow> nat \<Rightarrow> store option" where
  "decay_obj 0 f s node = None"
| "decay_obj (Suc fuel) f s node =
     do { n \<leftarrow> deref s node;
          case obj_children n of
            None \<Rightarrow> set_load_obj s node (decayed f (obj_load n))
          | Some cs \<Rightarrow> for_each (decay_obj fuel f) s cs }"

definition decay_load_obj :: "nat \<Rightarrow> FractalGrid_obj \<Rightarrow> real \<Rightarrow> FractalGrid_obj option" where
  "decay_load_obj fuel g f =
     do { s \<leftarrow> decay_obj fuel f (heap g) (root_ref g); Some (g\<lparr>heap := s\<rparr>) }"

fun gather_obj :: "nat \<Rightarrow> store \<Rightarrow> nat \<Rightarrow> nat list option" where
  "gather_obj 0 s node = None"
| "gather_obj (Suc fuel) s node =
     do { n \<leftarrow> deref s node;
          case obj_children n of
            None \<Rightarrow> Some [node]
          | Some cs \<Rightarrow> map_option concat (those (map (gather_obj fuel s) cs)) }"

definition get_leaves_obj :: "nat \<Rightarrow> FractalGrid_obj \<Rightarrow> nat list option" where
  "get_leaves_obj fuel g = gather_obj fuel (heap g) (root_ref g)"

subsection \<open>Reading the store\<close>

text \<open>
  What a holder of a reference reads through it (\<open>read_obj\<close>, \<open>cell_at\<close>), the relation
  between a store and a later one in which every object that existed has kept its bounds
  and level (\<open>same_cells\<close>), and the tree of the functional embedding that the objects
  below an address form (\<open>repr\<close>), with its height.
\<close>

definition cell_obj :: "NodeObj \<Rightarrow> real \<times> real \<times> real \<times> real \<times> int" where
  "cell_obj n = (obj_x_min n, obj_y_min n, obj_x_max n, obj_y_max n, obj_level n)"

definition same_cells :: "store \<Rightarrow> store \<Rightarrow> bool" where
  "same_cells s s' \<longleftrightarrow>
     length s \<le> length s' \<and> map cell_obj (take (length s) s') = map cell_obj s"

definition read_obj :: "store \<Rightarrow> nat \<Rightarrow> ((real \<times> real \<times> real \<times> real \<times> int) \<times> real) option" where
  "read_obj s r = map_option (\<lambda>n. (cell_obj n, obj_load n)) (deref s r)"

fun height :: "Node \<Rightarrow> nat" where
  "height (Node a b c d l None ld) = 0"
| "height (Node a b c d l (Some cs) ld) = Suc (Max (insert 0 (height ` set cs)))"

fun repr :: "store \<Rightarrow> nat \<Rightarrow> Node \<Rightarrow> bool" where
  "repr s r (Node a b c d l None ld) =
     (case deref s r of
        None \<Rightarrow> False
      | Some n \<Rightarrow> cell_obj n = (a, b, c, d, l) \<and> obj_load n = ld \<and> obj_children n = None)"
| "repr s r (Node a b c d l (Some ts) ld) =
     (case deref s r of
        None \<Rightarrow> False
      | Some n \<Rightarrow> cell_obj n = (a, b, c, d, l) \<and> obj_load n = ld
          \<and> (case obj_children n of None \<Rightarrow> False | Some rs \<Rightarrow> list_all2 (repr s) rs ts))"

definition cell_at :: "store \<Rightarrow> nat \<Rightarrow> (real \<times> real \<times> real \<times> real \<times> int) option" where
  "cell_at s r = map_option cell_obj (deref s r)"

text \<open>One mutating operation, with any arguments, takes the grid \<open>g\<close> to \<open>g'\<close>.\<close>

definition mutates :: "FractalGrid_obj \<Rightarrow> FractalGrid_obj \<Rightarrow> bool" where
  "mutates g g' \<longleftrightarrow>
     (\<exists>fuel x y res. get_obj fuel g x y = Some (res, g'))
     \<or> (\<exists>fuel x y res. set_obj fuel g x y = Some (res, g'))
     \<or> (\<exists>fuel f. decay_load_obj fuel g f = Some g')
     \<or> (\<exists>fuel. periodic_rebalance_obj fuel g = Some (Inr g'))"

text \<open>The default grid as constructed, and after one call that lands on its root.\<close>

definition fresh_obj :: FractalGrid_obj where
  "fresh_obj = FractalGrid_obj_init 0 0 1 1 6 5 2 (9 / 10) 1"

definition touched_obj :: FractalGrid_obj where
  "touched_obj = fresh_obj\<lparr>heap :=
     [\<lparr>obj_x_min = 0, obj_y_min = 0, obj_x_max = 1, obj_y_max = 1, obj_level = 0,
       obj_parent = None, obj_children = None, obj_load = 1\<rparr>]\<rparr>"

section \<open>Properties of the functional embedding\<close>

subsection \<open>Field access\<close>

lemma set_load_sel [simp]:
  "x_min (set_load n v) = x_min n" "y_min (set_load n v) = y_min n"
  "x_max (set_load n v) = x_max n" "y_max (set_load n v) = y_max n"
  "level (set_load n v) = level n" "children (set_load n v) = children n"
  "load (set_load n v) = v"
  by (simp_all add: set_load_def)

lemma set_children_sel [simp]:
  "x_min (set_children n cs) = x_min n" "y_min (set_children n cs) = y_min n"
  "x_max (set_children n cs) = x_max n" "y_max (set_children n cs) = y_max n"
  "level (set_children n cs) = level n" "children (set_children n cs) = cs"
  "load (set_children n cs) = load n"
  by (simp_all add: set_children_def)

lemma Node_init_sel [simp]:
  "x_min (Node_init x0 y0 x1 y1 l) = x0" "y_min (Node_init x0 y0 x1 y1 l) = y0"
  "x_max (Node_init x0 y0 x1 y1 l) = x1" "y_max (Node_init x0 y0 x1 y1 l) = y1"
  "level (Node_init x0 y0 x1 y1 l) = l" "children (Node_init x0 y0 x1 y1 l) = None"
  "load (Node_init x0 y0 x1 y1 l) = 0"
  by (simp_all add: Node_init_def)

lemma subdivide_children:
  "children (subdivide n) = Some
     [Node (x_min n) (y_min n) ((x_min n + x_max n) / 2) ((y_min n + y_max n) / 2)
        (level n + 1) None (load n / 4),
      Node ((x_min n + x_max n) / 2) (y_min n) (x_max n) ((y_min n + y_max n) / 2)
        (level n + 1) None (load n / 4),
      Node (x_min n) ((y_min n + y_max n) / 2) ((x_min n + x_max n) / 2) (y_max n)
        (level n + 1) None (load n / 4),
      Node ((x_min n + x_max n) / 2) ((y_min n + y_max n) / 2) (x_max n) (y_max n)
        (level n + 1) None (load n / 4)]"
  by (simp add: subdivide_def Let_def Node_init_def set_load_def)

lemma subdivide_sel [simp]:
  "x_min (subdivide n) = x_min n" "y_min (subdivide n) = y_min n"
  "x_max (subdivide n) = x_max n" "y_max (subdivide n) = y_max n"
  "level (subdivide n) = level n" "load (subdivide n) = 0"
  by (simp_all add: subdivide_def Let_def)

text \<open>
  Claim C6. On a leaf, \<^verbatim>\<open>subdivide\<close> installs four children, all leaves at the level below
  the node's, each with one quarter of the load the node had, so that their loads add up
  to that load; the node itself is left with load 0.
\<close>

theorem subdivide_quarters:
  assumes "is_leaf n"
  shows "\<exists>c0 c1 c2 c3. children (subdivide n) = Some [c0, c1, c2, c3]
     \<and> map level [c0, c1, c2, c3] = replicate 4 (level n + 1)
     \<and> map load [c0, c1, c2, c3] = replicate 4 (load n / 4)
     \<and> map is_leaf [c0, c1, c2, c3] = replicate 4 True
     \<and> load c0 + load c1 + load c2 + load c3 = load n
     \<and> load (subdivide n) = 0"
  by (simp add: subdivide_children is_leaf_def numeral_eq_Suc)

theorem subdivide_quarters_witness:
  "is_leaf (Node 0 0 1 1 0 None 6)
   \<and> children (subdivide (Node 0 0 1 1 0 None 6)) = Some
       [Node 0 0 (1/2) (1/2) 1 None (3/2), Node (1/2) 0 1 (1/2) 1 None (3/2),
        Node 0 (1/2) (1/2) 1 1 None (3/2), Node (1/2) (1/2) 1 1 1 None (3/2)]
   \<and> load (subdivide (Node 0 0 1 1 0 None 6)) = 0"
  using subdivide_quarters [of "Node 0 0 1 1 0 None 6"]
  by (simp add: subdivide_children is_leaf_def)

lemma can_merge_iff:
  "can_merge n mt \<longleftrightarrow>
     (\<exists>cs. children n = Some cs \<and> list_all is_leaf cs \<and> sum_list (map load cs) < mt)"
  by (cases "children n") (auto simp: can_merge_def Let_def list_ex_iff list_all_iff)

text \<open>
  Claim C8. \<^verbatim>\<open>can_merge\<close> holds of a node exactly when the node is internal, all its
  children are leaves and their loads add up to less than the threshold; a single
  internal child makes it false.
\<close>

theorem can_merge_iff_leaf_children_below:
  "(can_merge n mt \<longleftrightarrow>
      (\<exists>cs. children n = Some cs \<and> list_all is_leaf cs \<and> sum_list (map load cs) < mt))
   \<and> (\<forall>cs c. children n = Some cs \<longrightarrow> c \<in> set cs \<longrightarrow> \<not> is_leaf c \<longrightarrow> \<not> can_merge n mt)"
proof (intro conjI allI impI)
  show "can_merge n mt \<longleftrightarrow>
      (\<exists>cs. children n = Some cs \<and> list_all is_leaf cs \<and> sum_list (map load cs) < mt)"
    by (rule can_merge_iff)
next
  fix cs c
  assume "children n = Some cs" and "c \<in> set cs" and "\<not> is_leaf c"
  then show "\<not> can_merge n mt"
    by (auto simp: can_merge_iff list_all_iff)
qed

lemma first_index_less: "first_index P cs = Some i \<Longrightarrow> i < length cs"
proof (induction cs arbitrary: i)
  case Nil
  then show ?case by simp
next
  case (Cons c cs)
  show ?case
  proof (cases "P c")
    case True
    with Cons.prems show ?thesis by simp
  next
    case False
    with Cons.prems obtain j where j: "first_index P cs = Some j" and i: "i = Suc j"
      by auto
    from j have "j < length cs" by (rule Cons.IH)
    with i show ?thesis by simp
  qed
qed

lemma first_index_holds: "first_index P cs = Some i \<Longrightarrow> P (cs ! i)"
proof (induction cs arbitrary: i)
  case Nil
  then show ?case by simp
next
  case (Cons c cs)
  show ?case
  proof (cases "P c")
    case True
    with Cons.prems show ?thesis by simp
  next
    case False
    with Cons.prems obtain j where j: "first_index P cs = Some j" and i: "i = Suc j"
      by auto
    from j have "P (cs ! j)" by (rule Cons.IH)
    with i show ?thesis by simp
  qed
qed

lemma first_index_None: "first_index P cs = None \<longleftrightarrow> (\<forall>c \<in> set cs. \<not> P c)"
  by (induction cs) auto

lemma find_leaf_valid: "valid_path n (find_leaf n x y)"
proof (induction n x y rule: find_leaf.induct)
  case (1 a b c d l ld x y)
  show ?case by simp
next
  case (2 a b c d l cs ld x y)
  show ?case
  proof (cases "first_index (\<lambda>child. contains child x y) cs")
    case None
    then show ?thesis by simp
  next
    case (Some i)
    then have "i < length cs" by (rule first_index_less)
    moreover from Some have "valid_path (cs ! i) (find_leaf (cs ! i) x y)" by (rule "2.IH")
    ultimately show ?thesis using Some by simp
  qed
qed

lemma node_at_update_at:
  "valid_path n p \<Longrightarrow> node_at (update_at f p n) p = f (node_at n p)"
proof (induction p arbitrary: n)
  case Nil
  show ?case by simp
next
  case (Cons i p)
  from Cons.prems obtain cs where cs: "children n = Some cs" and i: "i < length cs"
    and v: "valid_path (cs ! i) p"
    by (auto split: option.splits)
  from v have "node_at (update_at f p (cs ! i)) p = f (node_at (cs ! i) p)" by (rule Cons.IH)
  with cs i show ?case by simp
qed

lemma validate_coord_simps [simp]:
  "0 \<le> x \<Longrightarrow> x < 1 \<Longrightarrow> validate_coord x = Inr x"
  "x < 0 \<Longrightarrow> validate_coord x = Inl ValueError"
  "1 \<le> x \<Longrightarrow> validate_coord x = Inl ValueError"
  by (simp_all add: validate_coord_def)

lemma get_invalid:
  "x < 0 \<or> 1 \<le> x \<or> y < 0 \<or> 1 \<le> y \<Longrightarrow> get g x y = (Inl ValueError, g)"
  by (auto simp: get_def validate_coord_def)

lemma set_grid_invalid:
  "x < 0 \<or> 1 \<le> x \<or> y < 0 \<or> 1 \<le> y \<Longrightarrow> set_grid g x y = (Inl ValueError, g)"
  by (auto simp: set_grid_def validate_coord_def)

lemma get_valid:
  "0 \<le> x \<Longrightarrow> x < 1 \<Longrightarrow> 0 \<le> y \<Longrightarrow> y < 1 \<Longrightarrow>
   get g x y = (Inr (load (node_at (root g) (find_leaf (root g) x y)) + 1),
                g\<lparr>root := update_at add_load (find_leaf (root g) x y) (root g)\<rparr>)"
  by (simp add: get_def Let_def node_at_update_at find_leaf_valid add_load_def)

lemma set_grid_valid:
  "0 \<le> x \<Longrightarrow> x < 1 \<Longrightarrow> 0 \<le> y \<Longrightarrow> y < 1 \<Longrightarrow>
   set_grid g x y = (Inr (),
     g\<lparr>root := update_at (rebalance g) (find_leaf (root g) x y)
                (update_at add_load (find_leaf (root g) x y) (root g))\<rparr>)"
  by (simp add: set_grid_def Let_def)

text \<open>
  Claim C5. \<^verbatim>\<open>get\<close> and \<^verbatim>\<open>set\<close> raise \<^verbatim>\<open>ValueError\<close> exactly when a coordinate is outside
  \<open>[0, 1)\<close>, and then return the grid as it was. With both coordinates in range, \<^verbatim>\<open>get\<close>
  does not raise, the load of the node \<^verbatim>\<open>_find_leaf\<close> returned is one higher afterwards,
  and that new load is the result. The three calls of the scenario behave accordingly.
\<close>

theorem get_set_validation:
  "(fst (get g x y) = Inl ValueError \<longleftrightarrow> x < 0 \<or> 1 \<le> x \<or> y < 0 \<or> 1 \<le> y)
   \<and> (fst (set_grid g x y) = Inl ValueError \<longleftrightarrow> x < 0 \<or> 1 \<le> x \<or> y < 0 \<or> 1 \<le> y)
   \<and> (x < 0 \<or> 1 \<le> x \<or> y < 0 \<or> 1 \<le> y \<longrightarrow>
        snd (get g x y) = g \<and> snd (set_grid g x y) = g)
   \<and> (0 \<le> x \<and> x < 1 \<and> 0 \<le> y \<and> y < 1 \<longrightarrow>
        fst (get g x y) = Inr (load (node_at (root g) (find_leaf (root g) x y)) + 1)
        \<and> load (node_at (root (snd (get g x y))) (find_leaf (root g) x y))
            = load (node_at (root g) (find_leaf (root g) x y)) + 1)
   \<and> fst (get g 1 (1 / 2)) = Inl ValueError
   \<and> fst (get g (- 1 / 10) (1 / 2)) = Inl ValueError
   \<and> (\<exists>v. fst (get g 0 (999999 / 1000000)) = Inr v)"
proof -
  have valid_or: "(0 \<le> x \<and> x < 1 \<and> 0 \<le> y \<and> y < 1) \<or> (x < 0 \<or> 1 \<le> x \<or> y < 0 \<or> 1 \<le> y)"
    by linarith
  have a: "fst (get g x y) = Inl ValueError \<longleftrightarrow> x < 0 \<or> 1 \<le> x \<or> y < 0 \<or> 1 \<le> y"
    using valid_or by (auto simp: get_invalid get_valid)
  have b: "fst (set_grid g x y) = Inl ValueError \<longleftrightarrow> x < 0 \<or> 1 \<le> x \<or> y < 0 \<or> 1 \<le> y"
    using valid_or by (auto simp: set_grid_invalid set_grid_valid)
  have c: "x < 0 \<or> 1 \<le> x \<or> y < 0 \<or> 1 \<le> y \<longrightarrow>
        snd (get g x y) = g \<and> snd (set_grid g x y) = g"
    by (auto simp: get_invalid set_grid_invalid)
  have d: "0 \<le> x \<and> x < 1 \<and> 0 \<le> y \<and> y < 1 \<longrightarrow>
        fst (get g x y) = Inr (load (node_at (root g) (find_leaf (root g) x y)) + 1)
        \<and> load (node_at (root (snd (get g x y))) (find_leaf (root g) x y))
            = load (node_at (root g) (find_leaf (root g) x y)) + 1"
    by (simp add: get_valid node_at_update_at find_leaf_valid add_load_def)
  have e: "fst (get g 1 (1 / 2)) = Inl ValueError"
    by (simp add: get_invalid)
  have f: "fst (get g (- 1 / 10) (1 / 2)) = Inl ValueError"
    by (simp add: get_invalid)
  have h: "\<exists>v. fst (get g 0 (999999 / 1000000)) = Inr v"
    by (simp add: get_valid)
  from a b c d e f h show ?thesis by blast
qed

theorem get_set_validation_witness:
  "(2 < (0::real) \<or> (1::real) \<le> 2 \<or> (1 / 2) < (0::real) \<or> (1::real) \<le> 1 / 2)
   \<and> fst (get FractalGrid_default 2 (1 / 2)) = Inl ValueError
   \<and> snd (get FractalGrid_default 2 (1 / 2)) = FractalGrid_default
   \<and> snd (set_grid FractalGrid_default 2 (1 / 2)) = FractalGrid_default
   \<and> ((0::real) \<le> 1 / 4 \<and> (1 / 4) < (1::real) \<and> (0::real) \<le> 3 / 4 \<and> (3 / 4) < (1::real))
   \<and> fst (get FractalGrid_default (1 / 4) (3 / 4)) = Inr 1
   \<and> load (node_at (root (snd (get FractalGrid_default (1 / 4) (3 / 4)))) []) = 1"
proof -
  have bad: "2 < (0::real) \<or> (1::real) \<le> 2 \<or> (1 / 2) < (0::real) \<or> (1::real) \<le> 1 / 2"
    by simp
  have good: "(0::real) \<le> 1 / 4 \<and> (1 / 4) < (1::real) \<and> (0::real) \<le> 3 / 4 \<and> (3 / 4) < (1::real)"
    by simp
  have path: "find_leaf (root FractalGrid_default) (1 / 4) (3 / 4) = []"
    by (simp add: FractalGrid_default_def FractalGrid_init_def Node_init_def)
  have ld: "load (root FractalGrid_default) = 0"
    by (simp add: FractalGrid_default_def FractalGrid_init_def)
  from get_set_validation [of FractalGrid_default 2 "1 / 2"] bad
  have a: "fst (get FractalGrid_default 2 (1 / 2)) = Inl ValueError
      \<and> snd (get FractalGrid_default 2 (1 / 2)) = FractalGrid_default
      \<and> snd (set_grid FractalGrid_default 2 (1 / 2)) = FractalGrid_default"
    by blast
  from get_set_validation [of FractalGrid_default "1 / 4" "3 / 4"] good
  have "fst (get FractalGrid_default (1 / 4) (3 / 4))
          = Inr (load (node_at (root FractalGrid_default)
                   (find_leaf (root FractalGrid_default) (1 / 4) (3 / 4))) + 1)
      \<and> load (node_at (root (snd (get FractalGrid_default (1 / 4) (3 / 4))))
            (find_leaf (root FractalGrid_default) (1 / 4) (3 / 4)))
          = load (node_at (root FractalGrid_default)
              (find_leaf (root FractalGrid_default) (1 / 4) (3 / 4))) + 1"
    by blast
  then have b: "fst (get FractalGrid_default (1 / 4) (3 / 4)) = Inr 1
      \<and> load (node_at (root (snd (get FractalGrid_default (1 / 4) (3 / 4)))) []) = 1"
    by (simp add: path ld)
  from bad good a b show ?thesis by blast
qed

theorem can_merge_iff_leaf_children_below_witness:
  "children (Node 0 0 1 1 0 (Some [subdivide (Node_init 0 0 (1 / 2) (1 / 2) 1),
       Node_init (1 / 2) 0 1 (1 / 2) 1, Node_init 0 (1 / 2) (1 / 2) 1 1,
       Node_init (1 / 2) (1 / 2) 1 1 1]) 0)
     = Some [subdivide (Node_init 0 0 (1 / 2) (1 / 2) 1),
       Node_init (1 / 2) 0 1 (1 / 2) 1, Node_init 0 (1 / 2) (1 / 2) 1 1,
       Node_init (1 / 2) (1 / 2) 1 1 1]
   \<and> subdivide (Node_init 0 0 (1 / 2) (1 / 2) 1)
       \<in> set [subdivide (Node_init 0 0 (1 / 2) (1 / 2) 1),
           Node_init (1 / 2) 0 1 (1 / 2) 1, Node_init 0 (1 / 2) (1 / 2) 1 1,
           Node_init (1 / 2) (1 / 2) 1 1 1]
   \<and> \<not> is_leaf (subdivide (Node_init 0 0 (1 / 2) (1 / 2) 1))
   \<and> \<not> can_merge (Node 0 0 1 1 0 (Some [subdivide (Node_init 0 0 (1 / 2) (1 / 2) 1),
       Node_init (1 / 2) 0 1 (1 / 2) 1, Node_init 0 (1 / 2) (1 / 2) 1 1,
       Node_init (1 / 2) (1 / 2) 1 1 1]) 0) 10"
proof -
  let ?c = "subdivide (Node_init 0 0 (1 / 2) (1 / 2) 1)"
  let ?cs = "[?c, Node_init (1 / 2) 0 1 (1 / 2) 1, Node_init 0 (1 / 2) (1 / 2) 1 1,
       Node_init (1 / 2) (1 / 2) 1 1 1]"
  let ?n = "Node 0 0 1 1 0 (Some ?cs) 0"
  have h1: "children ?n = Some ?cs" by simp
  have h2: "?c \<in> set ?cs" by simp
  have h3: "\<not> is_leaf ?c" by (simp add: is_leaf_def subdivide_children)
  from can_merge_iff_leaf_children_below [of ?n 10] h1 h2 h3
  have "\<not> can_merge ?n 10" by blast
  with h1 h2 h3 show ?thesis by blast
qed

subsection \<open>Invariants under the operations\<close>

lemma cell_simps [simp]:
  "cell (set_load n v) = cell n" "cell (set_children n cs) = cell n"
  "cell (subdivide n) = cell n" "cell (add_load n) = cell n"
  by (simp_all add: cell_def add_load_def)

lemma nodes_unfold:
  "nodes n = n # (case children n of None \<Rightarrow> [] | Some cs \<Rightarrow> concat (map nodes cs))"
  by (cases n; cases "children n") auto

declare nodes.simps [simp del]

lemma all_nodes_leaf: "children n = None \<Longrightarrow> list_all P (nodes n) \<longleftrightarrow> P n"
  by (subst nodes_unfold) simp

lemma all_nodes_internal:
  "children n = Some cs \<Longrightarrow>
   list_all P (nodes n) \<longleftrightarrow> P n \<and> (\<forall>c \<in> set cs. list_all P (nodes c))"
  by (subst nodes_unfold) (simp add: list_all_iff)

lemma all_nodes_self: "list_all P (nodes n) \<Longrightarrow> P n"
  by (subst (asm) nodes_unfold) simp

lemma all_nodes_child:
  "list_all P (nodes n) \<Longrightarrow> children n = Some cs \<Longrightarrow> i < length cs \<Longrightarrow>
   list_all P (nodes (cs ! i))"
  by (simp add: all_nodes_internal)

lemma cell_update_at: "(\<And>m. cell (f m) = cell m) \<Longrightarrow> cell (update_at f p n) = cell n"
  by (cases p) (auto split: option.splits)

lemma all_nodes_update_at:
  assumes loc: "local_pred P"
    and f_cell: "\<And>m. cell (f m) = cell m"
    and inv: "list_all P (nodes n)"
    and target: "list_all P (nodes (f (node_at n p)))"
  shows "list_all P (nodes (update_at f p n))"
  using inv target
proof (induction p arbitrary: n)
  case Nil
  then show ?case by simp
next
  case (Cons i p)
  show ?case
  proof (cases "children n")
    case None
    with Cons.prems show ?thesis by simp
  next
    case (Some cs)
    show ?thesis
    proof (cases "i < length cs")
      case False
      with Some Cons.prems show ?thesis by simp
    next
      case True
      let ?c' = "update_at f p (cs ! i)"
      from Cons.prems(1) Some True have ci: "list_all P (nodes (cs ! i))"
        by (rule all_nodes_child)
      from Cons.prems(2) Some True have "list_all P (nodes (f (node_at (cs ! i) p)))"
        by simp
      with ci have c': "list_all P (nodes ?c')" by (rule Cons.IH)
      have "cell ?c' = cell (cs ! i)" using f_cell by (rule cell_update_at)
      then have cells: "map cell (cs[i := ?c']) = map cell cs"
        by (simp add: map_update list_update_same_conv True)
      from Cons.prems(1) have "P n" by (rule all_nodes_self)
      with loc Some cells have Pn: "P (set_children n (Some (cs[i := ?c'])))"
        unfolding local_pred_def by blast
      from Cons.prems(1) Some have rest: "\<forall>c \<in> set cs. list_all P (nodes c)"
        by (simp add: all_nodes_internal)
      have "\<forall>c \<in> set (cs[i := ?c']). list_all P (nodes c)"
      proof
        fix c assume "c \<in> set (cs[i := ?c'])"
        then have "c = ?c' \<or> c \<in> set cs" using set_update_subset_insert by fastforce
        with c' rest show "list_all P (nodes c)" by blast
      qed
      with Pn have "list_all P (nodes (set_children n (Some (cs[i := ?c']))))"
        by (simp add: all_nodes_internal)
      with Some True show ?thesis by simp
    qed
  qed
qed

lemma quadrants_simps [simp]:
  "quadrants (set_load n v) = quadrants n" "quadrants (set_children n cs) = quadrants n"
  by (simp_all add: quadrants_def)

lemma local_shape_ok: "local_pred shape_ok"
  by (auto simp: local_pred_def shape_ok_def)

lemma local_load_ok: "local_pred load_ok"
  by (auto simp: local_pred_def load_ok_def is_leaf_def)

lemma local_load_nonneg: "local_pred load_nonneg"
  by (simp add: local_pred_def load_nonneg_def)

lemma map_cell_level: "map cell cs' = map cell cs \<Longrightarrow> map level cs' = map level cs"
proof -
  assume "map cell cs' = map cell cs"
  then have "map (\<lambda>q. snd (snd (snd (snd q)))) (map cell cs')
      = map (\<lambda>q. snd (snd (snd (snd q)))) (map cell cs)" by simp
  then show ?thesis by (simp add: cell_def comp_def)
qed

lemma local_depth_ok: "local_pred (depth_ok ml)"
proof -
  have "list_all (\<lambda>child. level child \<le> ml) cs'"
    if a: "list_all (\<lambda>child. level child \<le> ml) cs" and b: "map cell cs' = map cell cs"
    for cs cs'
  proof -
    from b have "map level cs' = map level cs" by (rule map_cell_level)
    moreover from a have "list_all (\<lambda>v. v \<le> ml) (map level cs)"
      by (simp add: list_all_iff)
    ultimately have "list_all (\<lambda>v. v \<le> ml) (map level cs')" by simp
    then show ?thesis by (simp add: list_all_iff)
  qed
  then show ?thesis
    by (auto simp: local_pred_def depth_ok_def)
qed

lemma all_nodes_node_at: "list_all P (nodes n) \<Longrightarrow> list_all P (nodes (node_at n p))"
proof (induction p arbitrary: n)
  case Nil
  then show ?case by simp
next
  case (Cons i p)
  show ?case
  proof (cases "children n")
    case None
    with Cons.prems show ?thesis by simp
  next
    case (Some cs)
    show ?thesis
    proof (cases "i < length cs")
      case True
      with Cons.prems Some have "list_all P (nodes (cs ! i))" by (simp add: all_nodes_child)
      then have "list_all P (nodes (node_at (cs ! i) p))" by (rule Cons.IH)
      with Some True show ?thesis by simp
    next
      case False
      with Cons.prems Some show ?thesis by simp
    qed
  qed
qed

lemma all_nodes_set_load:
  assumes "list_all P (nodes m)" and "P (set_load m v)"
  shows "list_all P (nodes (set_load m v))"
proof (cases "children m")
  case None
  with assms(2) show ?thesis by (simp add: all_nodes_leaf)
next
  case (Some cs)
  with assms(1) have "\<forall>c \<in> set cs. list_all P (nodes c)" by (simp add: all_nodes_internal)
  with assms(2) Some show ?thesis by (simp add: all_nodes_internal)
qed

lemma contains_cell:
  "cell n = (x0, y0, x1, y1, l) \<Longrightarrow> contains n x y \<longleftrightarrow> x0 \<le> x \<and> x < x1 \<and> y0 \<le> y \<and> y < y1"
  by (simp add: cell_def contains_def)

lemma quadrant_cover:
  assumes shape: "shape_ok n" and cs: "children n = Some cs" and inside: "contains n x y"
  shows "\<exists>c \<in> set cs. contains c x y"
proof -
  let ?mx = "(x_min n + x_max n) / 2" and ?my = "(y_min n + y_max n) / 2"
  from shape cs have "map cell cs = quadrants n" by (simp add: shape_ok_def)
  then obtain c0 c1 c2 c3 where list: "cs = [c0, c1, c2, c3]"
    and q0: "cell c0 = (x_min n, y_min n, ?mx, ?my, level n + 1)"
    and q1: "cell c1 = (?mx, y_min n, x_max n, ?my, level n + 1)"
    and q2: "cell c2 = (x_min n, ?my, ?mx, y_max n, level n + 1)"
    and q3: "cell c3 = (?mx, ?my, x_max n, y_max n, level n + 1)"
    by (auto simp: quadrants_def Let_def map_eq_Cons_conv)
  from inside have b: "x_min n \<le> x" "x < x_max n" "y_min n \<le> y" "y < y_max n"
    by (simp_all add: contains_def)
  have "contains c0 x y \<or> contains c1 x y \<or> contains c2 x y \<or> contains c3 x y"
  proof (cases "x < ?mx")
    case left: True
    show ?thesis
    proof (cases "y < ?my")
      case True
      with left b have "contains c0 x y" by (simp add: contains_cell [OF q0])
      then show ?thesis by simp
    next
      case False
      with left b have "contains c2 x y" by (simp add: contains_cell [OF q2])
      then show ?thesis by simp
    qed
  next
    case right: False
    show ?thesis
    proof (cases "y < ?my")
      case True
      with right b have "contains c1 x y" by (simp add: contains_cell [OF q1])
      then show ?thesis by simp
    next
      case False
      with right b have "contains c3 x y" by (simp add: contains_cell [OF q3])
      then show ?thesis by simp
    qed
  qed
  with list show ?thesis by auto
qed

lemma find_leaf_lands:
  "list_all shape_ok (nodes n) \<Longrightarrow> contains n x y \<Longrightarrow>
   is_leaf (node_at n (find_leaf n x y)) \<and> contains (node_at n (find_leaf n x y)) x y"
proof (induction n x y rule: find_leaf.induct)
  case (1 a b c d l ld x y)
  then show ?case by (simp add: is_leaf_def)
next
  case (2 a b c d l cs ld x y)
  let ?n = "Node a b c d l (Some cs) ld"
  from "2.prems"(1) have "shape_ok ?n" by (rule all_nodes_self)
  with "2.prems"(2) have "\<exists>child \<in> set cs. contains child x y"
    by (intro quadrant_cover [of ?n]) simp_all
  then have "first_index (\<lambda>child. contains child x y) cs \<noteq> None"
    by (simp add: first_index_None)
  then obtain i where i: "first_index (\<lambda>child. contains child x y) cs = Some i" by auto
  then have len: "i < length cs" and hit: "contains (cs ! i) x y"
    by (rule first_index_less, rule first_index_holds)
  have "list_all shape_ok (nodes (cs ! i))"
    by (rule all_nodes_child [OF "2.prems"(1) _ len]) simp
  with i hit have "is_leaf (node_at (cs ! i) (find_leaf (cs ! i) x y))
      \<and> contains (node_at (cs ! i) (find_leaf (cs ! i) x y)) x y"
    by (intro "2.IH")
  with i len show ?case by simp
qed

lemma pred_set_load [simp]:
  "shape_ok (set_load m v) = shape_ok m" "depth_ok ml (set_load m v) = depth_ok ml m"
  "load_nonneg (set_load m v) \<longleftrightarrow> 0 \<le> v"
  "load_ok (set_load m v) \<longleftrightarrow> 0 \<le> v \<and> (is_leaf m \<or> v = 0)"
  by (simp_all add: shape_ok_def depth_ok_def load_nonneg_def load_ok_def is_leaf_def
      cong: option.case_cong)

lemma nodes_subdivide:
  "nodes (subdivide n) = subdivide n # the (children (subdivide n))"
  by (subst nodes_unfold) (simp add: subdivide_children nodes.simps)

lemma subdivide_shape: "list_all shape_ok (nodes (subdivide n))"
  by (simp add: nodes_subdivide)
     (simp add: subdivide_children shape_ok_def quadrants_def cell_def Let_def)

lemma subdivide_load_nonneg: "0 \<le> load n \<Longrightarrow> list_all load_nonneg (nodes (subdivide n))"
  by (simp add: nodes_subdivide) (simp add: subdivide_children load_nonneg_def)

lemma subdivide_load_ok: "0 \<le> load n \<Longrightarrow> list_all load_ok (nodes (subdivide n))"
  by (simp add: nodes_subdivide) (simp add: subdivide_children load_ok_def is_leaf_def)

lemma subdivide_depth: "level n < ml \<Longrightarrow> list_all (depth_ok ml) (nodes (subdivide n))"
  by (simp add: nodes_subdivide) (simp add: subdivide_children depth_ok_def)

lemma cell_rebalance [simp]: "cell (rebalance g n) = cell n"
  by (simp add: rebalance_def)

lemma rebalance_keeps:
  assumes "list_all P (nodes m)"
    and "is_leaf m \<Longrightarrow> split_threshold g < load m \<Longrightarrow> level m < max_level g
           \<Longrightarrow> list_all P (nodes (subdivide m))"
  shows "list_all P (nodes (rebalance g m))"
  using assms by (simp add: rebalance_def)

lemma sequence_Inr: "sequence (map Inr vs) = Inr vs"
  by (induction vs) simp_all

lemma merge_repeatedly_returns:
  "merge_repeatedly mt n = Inr (projr (merge_repeatedly mt n))"
proof (induction mt n rule: merge_repeatedly.induct)
  case (1 mt a b c d l ld)
  show ?case by simp
next
  case (2 mt a b c d l cs ld)
  let ?cs' = "map (\<lambda>child. projr (merge_repeatedly mt child)) cs"
  from "2.IH" have "map (merge_repeatedly mt) cs = map Inr ?cs'" by simp
  then have seq: "sequence (map (merge_repeatedly mt) cs) = Inr ?cs'"
    by (simp only: sequence_Inr)
  show ?case
  proof (cases "can_merge (Node a b c d l (Some ?cs') ld) mt")
    case True
    with seq show ?thesis by (simp add: merge_def)
  next
    case False
    with seq show ?thesis by simp
  qed
qed

lemma merge_repeatedly_leaf:
  "children n = None \<Longrightarrow> merge_repeatedly mt n = Inr n"
  by (cases n) simp

lemma merge_repeatedly_internal:
  assumes "children n = Some cs"
  shows "merge_repeatedly mt n =
     (let cs' = map (\<lambda>child. projr (merge_repeatedly mt child)) cs
      in if can_merge (set_children n (Some cs')) mt
         then Inr (set_load (set_children n None) (sum_list (map load cs')))
         else Inr (set_children n (Some cs')))"
proof -
  let ?cs' = "map (\<lambda>child. projr (merge_repeatedly mt child)) cs"
  have "map (merge_repeatedly mt) cs = map Inr ?cs'"
    by (simp add: merge_repeatedly_returns [symmetric])
  then have seq: "sequence (map (merge_repeatedly mt) cs) = Inr ?cs'"
    by (simp only: sequence_Inr)
  from assms obtain a b c d l ld where n: "n = Node a b c d l (Some cs) ld"
    by (cases n) simp
  show ?thesis
    by (simp add: n seq set_children_def set_load_def merge_def Let_def)
qed

declare merge_repeatedly.simps [simp del]

lemma cell_swept: "cell (projr (merge_repeatedly mt n)) = cell n"
proof (cases "children n")
  case None
  then show ?thesis by (simp add: merge_repeatedly_leaf)
next
  case (Some cs)
  then show ?thesis by (simp add: merge_repeatedly_internal Let_def)
qed

lemma swept_keeps:
  assumes loc: "local_pred P"
    and mrg: "\<And>m cs. P m \<Longrightarrow> children m = Some cs \<Longrightarrow> \<forall>c \<in> set cs. is_leaf c \<and> P c
        \<Longrightarrow> P (set_load (set_children m None) (sum_list (map load cs)))"
  shows "list_all P (nodes n) \<Longrightarrow> list_all P (nodes (projr (merge_repeatedly mt n)))"
proof (induction n rule: nodes.induct)
  case (1 a b c d l ld)
  then show ?case by (simp add: merge_repeatedly_leaf)
next
  case (2 a b c d l cs ld)
  let ?n = "Node a b c d l (Some cs) ld"
  let ?cs' = "map (\<lambda>child. projr (merge_repeatedly mt child)) cs"
  let ?n' = "set_children ?n (Some ?cs')"
  have kids: "children ?n = Some cs" by simp
  from "2.prems" have Pn: "P ?n" by (rule all_nodes_self)
  from "2.prems" have "\<forall>child \<in> set cs. list_all P (nodes child)"
    by (simp add: all_nodes_internal)
  with "2.IH" have kids': "\<forall>child \<in> set ?cs'. list_all P (nodes child)"
    by auto
  have "map cell ?cs' = map cell cs" by (simp add: cell_swept comp_def)
  with loc Pn kids have Pn': "P ?n'" unfolding local_pred_def by blast
  show ?case
  proof (cases "can_merge ?n' mt")
    case False
    from Pn' kids' have "list_all P (nodes ?n')" by (simp add: all_nodes_internal)
    with False show ?thesis by (simp add: merge_repeatedly_internal [OF kids] Let_def)
  next
    case True
    then have "list_all is_leaf ?cs'" by (simp add: can_merge_iff)
    then have leaves: "\<forall>child \<in> set ?cs'. is_leaf child" by (simp only: list_all_iff)
    have both: "\<forall>child \<in> set ?cs'. is_leaf child \<and> P child"
    proof
      fix child assume mem: "child \<in> set ?cs'"
      with kids' have "list_all P (nodes child)" by blast
      then have "P child" by (rule all_nodes_self)
      with leaves mem show "is_leaf child \<and> P child" by blast
    qed
    have "children ?n' = Some ?cs'" by simp
    with Pn' have "P (set_load (set_children ?n' None) (sum_list (map load ?cs')))"
      using both by (rule mrg)
    then have "list_all P (nodes (set_load (set_children ?n None) (sum_list (map load ?cs'))))"
      by (simp add: all_nodes_leaf set_children_def)
    with True show ?thesis by (simp add: merge_repeatedly_internal [OF kids] Let_def)
  qed
qed

lemma cell_decay: "cell (decay f n) = cell n"
  by (cases n; cases "children n") (simp_all add: cell_def)

lemma decay_leaf: "children n = None \<Longrightarrow> decay f n = set_load n (decayed f (load n))"
  by (cases n) (simp add: set_load_def)

lemma decay_internal:
  "children n = Some cs \<Longrightarrow> decay f n = set_children n (Some (map (decay f) cs))"
  by (cases n) (simp add: set_children_def)

declare decay.simps [simp del]

lemma decay_keeps:
  assumes loc: "local_pred P"
    and leaf: "\<And>m. children m = None \<Longrightarrow> P m \<Longrightarrow> P (set_load m (decayed f (load m)))"
  shows "list_all P (nodes n) \<Longrightarrow> list_all P (nodes (decay f n))"
proof (induction n rule: nodes.induct)
  case (1 a b c d l ld)
  let ?n = "Node a b c d l None ld"
  from "1.prems" have "P ?n" by (rule all_nodes_self)
  then have "P (set_load ?n (decayed f (load ?n)))" by (rule leaf [rotated]) simp
  then show ?case by (simp add: decay_leaf all_nodes_leaf)
next
  case (2 a b c d l cs ld)
  let ?n = "Node a b c d l (Some cs) ld"
  have kids: "children ?n = Some cs" by simp
  from "2.prems" have Pn: "P ?n" by (rule all_nodes_self)
  from "2.prems" have "\<forall>child \<in> set cs. list_all P (nodes child)"
    by (simp add: all_nodes_internal)
  with "2.IH" have kids': "\<forall>child \<in> set (map (decay f) cs). list_all P (nodes child)"
    by auto
  have "map cell (map (decay f) cs) = map cell cs" by (simp add: cell_decay comp_def)
  with loc Pn kids have "P (set_children ?n (Some (map (decay f) cs)))"
    unfolding local_pred_def by blast
  with kids' show ?case by (simp add: decay_internal all_nodes_internal)
qed

lemma set_children_twice [simp]: "set_children (set_children n a) b = set_children n b"
  by (simp add: set_children_def)

lemma update_at_twice: "update_at f p (update_at h p n) = update_at (f \<circ> h) p n"
proof (induction p arbitrary: n)
  case Nil
  show ?case by simp
next
  case (Cons i p)
  show ?case
  proof (cases "children n")
    case None
    then show ?thesis by simp
  next
    case (Some cs)
    then show ?thesis by (simp add: Cons.IH)
  qed
qed

lemma periodic_rebalance_returns:
  "periodic_rebalance g = Inr (g\<lparr>root := projr (merge_repeatedly (merge_threshold g) (root g))\<rparr>)"
  by (subst periodic_rebalance_def, subst merge_repeatedly_returns) simp

lemma valid_xy_cases: "valid_xy x y \<or> (x < 0 \<or> 1 \<le> x \<or> y < 0 \<or> 1 \<le> y)"
  unfolding valid_xy_def by linarith

lemma exec_Get:
  "exec g (Get x y) = (if valid_xy x y
       then g\<lparr>root := update_at add_load (find_leaf (root g) x y) (root g)\<rparr> else g)"
  using valid_xy_cases [of x y] by (auto simp: get_valid get_invalid valid_xy_def)

lemma exec_Set:
  "exec g (Set x y) = (if valid_xy x y
       then g\<lparr>root := update_at (rebalance g \<circ> add_load) (find_leaf (root g) x y) (root g)\<rparr>
       else g)"
  using valid_xy_cases [of x y]
  by (auto simp: set_grid_valid set_grid_invalid update_at_twice valid_xy_def)

lemma exec_PeriodicRebalance:
  "exec g PeriodicRebalance
     = g\<lparr>root := projr (merge_repeatedly (merge_threshold g) (root g))\<rparr>"
  by (simp add: periodic_rebalance_returns)

lemma exec_DecayLoad: "exec g (DecayLoad f) = g\<lparr>root := decay f (root g)\<rparr>"
  by (simp add: decay_load_def)

lemmas exec_simps = exec_Get exec_Set exec_PeriodicRebalance exec_DecayLoad

declare exec.simps(1-4) [simp del]

lemma exec_config [simp]:
  "max_level (exec g op) = max_level g"
  "split_threshold (exec g op) = split_threshold g"
  "merge_threshold (exec g op) = merge_threshold g"
  by (cases op; simp add: exec_simps)+

lemma exec_cell [simp]: "cell (root (exec g op)) = cell (root g)"
  by (cases op) (simp_all add: exec_simps cell_update_at cell_swept cell_decay)

lemma run_Nil [simp]: "run g [] = g"
  by (simp add: run_def)

lemma run_Cons [simp]: "run g (op # ops) = run (exec g op) ops"
  by (simp add: run_def)

lemma run_append: "run g (ops @ ops') = run (run g ops) ops'"
  by (simp add: run_def)

lemma run_config [simp]:
  "max_level (run g ops) = max_level g"
  "split_threshold (run g ops) = split_threshold g"
  "merge_threshold (run g ops) = merge_threshold g"
  by (induction ops arbitrary: g; simp)+

lemma run_cell [simp]: "cell (root (run g ops)) = cell (root g)"
  by (induction ops arbitrary: g) simp_all

text \<open>One operation keeps a local predicate, given what it needs at the node a call mutates.\<close>

lemma exec_keeps:
  assumes loc: "local_pred P"
    and mrg: "\<And>m cs. P m \<Longrightarrow> children m = Some cs \<Longrightarrow> \<forall>c \<in> set cs. is_leaf c \<and> P c
        \<Longrightarrow> P (set_load (set_children m None) (sum_list (map load cs)))"
    and dec: "\<And>f m. children m = None \<Longrightarrow> P m \<Longrightarrow> P (set_load m (decayed f (load m)))"
    and add: "\<And>x y. 0 \<le> x \<Longrightarrow> x < 1 \<Longrightarrow> 0 \<le> y \<Longrightarrow> y < 1 \<Longrightarrow>
        list_all P (nodes (add_load (node_at (root g) (find_leaf (root g) x y))))"
    and split: "\<And>m. list_all P (nodes m) \<Longrightarrow> is_leaf m \<Longrightarrow> level m < max_level g
        \<Longrightarrow> list_all P (nodes (subdivide m))"
    and inv: "list_all P (nodes (root g))"
  shows "list_all P (nodes (root (exec g op)))"
proof (cases op)
  case (Get x y)
  show ?thesis
  proof (cases "valid_xy x y")
    case True
    then have "list_all P (nodes (add_load (node_at (root g) (find_leaf (root g) x y))))"
      by (intro add) (simp_all add: valid_xy_def)
    with loc _ inv have "list_all P (nodes (update_at add_load (find_leaf (root g) x y) (root g)))"
      by (rule all_nodes_update_at) simp
    with True Get show ?thesis by (simp add: exec_simps)
  next
    case False
    with Get inv show ?thesis by (simp add: exec_simps)
  qed
next
  case (Set x y)
  show ?thesis
  proof (cases "valid_xy x y")
    case True
    let ?m = "add_load (node_at (root g) (find_leaf (root g) x y))"
    from True have m: "list_all P (nodes ?m)" by (intro add) (simp_all add: valid_xy_def)
    then have "list_all P (nodes (rebalance g ?m))"
      by (rule rebalance_keeps) (rule split [OF m])
    then have "list_all P
        (nodes ((rebalance g \<circ> add_load) (node_at (root g) (find_leaf (root g) x y))))"
      by simp
    with loc _ inv have "list_all P
        (nodes (update_at (rebalance g \<circ> add_load) (find_leaf (root g) x y) (root g)))"
      by (rule all_nodes_update_at) simp
    with True Set show ?thesis by (simp add: exec_simps)
  next
    case False
    with Set inv show ?thesis by (simp add: exec_simps)
  qed
next
  case PeriodicRebalance
  from loc mrg inv
  have "list_all P (nodes (projr (merge_repeatedly (merge_threshold g) (root g))))"
    by (rule swept_keeps)
  with PeriodicRebalance show ?thesis by (simp add: exec_simps)
next
  case (DecayLoad f)
  from loc dec inv have "list_all P (nodes (decay f (root g)))" by (rule decay_keeps)
  with DecayLoad show ?thesis by (simp add: exec_simps)
next
  case GetLeaves
  with inv show ?thesis by simp
qed

lemma is_leaf_simps [simp]:
  "is_leaf (set_load n v) = is_leaf n" "is_leaf (set_children n cs) \<longleftrightarrow> cs = None"
  "is_leaf (Node_init x0 y0 x1 y1 l)" "\<not> is_leaf (subdivide n)" "is_leaf (add_load n) = is_leaf n"
  by (simp_all add: is_leaf_def subdivide_children add_load_def)

lemma decayed_nonneg: "0 \<le> decayed f ld"
  by (simp add: decayed_def Let_def)

lemma sum_loads_nonneg: "\<forall>c \<in> set cs. 0 \<le> load c \<Longrightarrow> 0 \<le> sum_list (map load cs)"
  by (rule sum_list_nonneg) auto

lemma add_load_keeps:
  "list_all P (nodes m) \<Longrightarrow> P (add_load m) \<Longrightarrow> list_all P (nodes (add_load m))"
  unfolding add_load_def by (rule all_nodes_set_load)

lemma exec_shape:
  assumes "list_all shape_ok (nodes (root g))"
  shows "list_all shape_ok (nodes (root (exec g op)))"
proof (rule exec_keeps [OF local_shape_ok _ _ _ _ assms])
  fix m :: Node and cs :: "Node list"
  show "shape_ok (set_load (set_children m None) (sum_list (map load cs)))"
    by (simp add: shape_ok_def)
next
  fix f :: real and m :: Node
  assume "shape_ok m"
  then show "shape_ok (set_load m (decayed f (load m)))" by simp
next
  fix x y :: real
  let ?m = "node_at (root g) (find_leaf (root g) x y)"
  from assms have m: "list_all shape_ok (nodes ?m)" by (rule all_nodes_node_at)
  then have "shape_ok ?m" by (rule all_nodes_self)
  then have "shape_ok (add_load ?m)" by (simp add: add_load_def)
  with m show "list_all shape_ok (nodes (add_load ?m))" by (rule add_load_keeps)
next
  fix m :: Node
  show "list_all shape_ok (nodes (subdivide m))" by (rule subdivide_shape)
qed

lemma exec_depth:
  assumes "list_all (depth_ok (max_level g)) (nodes (root g))"
  shows "list_all (depth_ok (max_level g)) (nodes (root (exec g op)))"
proof (rule exec_keeps [OF local_depth_ok _ _ _ _ assms])
  fix m :: Node and cs :: "Node list"
  show "depth_ok (max_level g) (set_load (set_children m None) (sum_list (map load cs)))"
    by (simp add: depth_ok_def)
next
  fix f :: real and m :: Node
  assume "depth_ok (max_level g) m"
  then show "depth_ok (max_level g) (set_load m (decayed f (load m)))" by simp
next
  fix x y :: real
  let ?m = "node_at (root g) (find_leaf (root g) x y)"
  from assms have m: "list_all (depth_ok (max_level g)) (nodes ?m)" by (rule all_nodes_node_at)
  then have "depth_ok (max_level g) ?m" by (rule all_nodes_self)
  then have "depth_ok (max_level g) (add_load ?m)" by (simp add: add_load_def)
  with m show "list_all (depth_ok (max_level g)) (nodes (add_load ?m))" by (rule add_load_keeps)
next
  fix m :: Node
  assume "level m < max_level g"
  then show "list_all (depth_ok (max_level g)) (nodes (subdivide m))" by (rule subdivide_depth)
qed

lemma exec_load_nonneg:
  assumes "list_all load_nonneg (nodes (root g))"
  shows "list_all load_nonneg (nodes (root (exec g op)))"
proof (rule exec_keeps [OF local_load_nonneg _ _ _ _ assms])
  fix m :: Node and cs :: "Node list"
  assume "\<forall>c \<in> set cs. is_leaf c \<and> load_nonneg c"
  then have "0 \<le> sum_list (map load cs)" by (intro sum_loads_nonneg) (simp add: load_nonneg_def)
  then show "load_nonneg (set_load (set_children m None) (sum_list (map load cs)))" by simp
next
  fix f :: real and m :: Node
  show "load_nonneg (set_load m (decayed f (load m)))" by (simp add: decayed_nonneg)
next
  fix x y :: real
  let ?m = "node_at (root g) (find_leaf (root g) x y)"
  from assms have m: "list_all load_nonneg (nodes ?m)" by (rule all_nodes_node_at)
  then have "load_nonneg ?m" by (rule all_nodes_self)
  then have "load_nonneg (add_load ?m)" by (simp add: add_load_def load_nonneg_def)
  with m show "list_all load_nonneg (nodes (add_load ?m))" by (rule add_load_keeps)
next
  fix m :: Node
  assume "list_all load_nonneg (nodes m)"
  then have "load_nonneg m" by (rule all_nodes_self)
  then show "list_all load_nonneg (nodes (subdivide m))"
    by (intro subdivide_load_nonneg) (simp add: load_nonneg_def)
qed

lemma exec_load_ok:
  assumes shape: "list_all shape_ok (nodes (root g))"
    and covers: "\<And>x y. 0 \<le> x \<Longrightarrow> x < 1 \<Longrightarrow> 0 \<le> y \<Longrightarrow> y < 1 \<Longrightarrow> contains (root g) x y"
    and inv: "list_all load_ok (nodes (root g))"
  shows "list_all load_ok (nodes (root (exec g op)))"
proof (rule exec_keeps [OF local_load_ok _ _ _ _ inv])
  fix m :: Node and cs :: "Node list"
  assume "\<forall>c \<in> set cs. is_leaf c \<and> load_ok c"
  then have "0 \<le> sum_list (map load cs)" by (intro sum_loads_nonneg) (simp add: load_ok_def)
  then show "load_ok (set_load (set_children m None) (sum_list (map load cs)))"
    by (simp add: is_leaf_def)
next
  fix f :: real and m :: Node
  assume "children m = None"
  then show "load_ok (set_load m (decayed f (load m)))"
    by (simp add: decayed_nonneg is_leaf_def)
next
  fix x y :: real
  assume "0 \<le> x" "x < 1" "0 \<le> y" "y < 1"
  then have "contains (root g) x y" by (rule covers)
  with shape have leaf: "is_leaf (node_at (root g) (find_leaf (root g) x y))"
    by (simp add: find_leaf_lands)
  let ?m = "node_at (root g) (find_leaf (root g) x y)"
  from inv have m: "list_all load_ok (nodes ?m)" by (rule all_nodes_node_at)
  then have "load_ok ?m" by (rule all_nodes_self)
  then have "0 \<le> load ?m" by (simp add: load_ok_def)
  with leaf have "load_ok (add_load ?m)" by (simp add: add_load_def)
  with m show "list_all load_ok (nodes (add_load ?m))" by (rule add_load_keeps)
next
  fix m :: Node
  assume "list_all load_ok (nodes m)"
  then have "load_ok m" by (rule all_nodes_self)
  then show "list_all load_ok (nodes (subdivide m))"
    by (intro subdivide_load_ok) (simp add: load_ok_def)
qed

lemma run_shape:
  "list_all shape_ok (nodes (root g)) \<Longrightarrow> list_all shape_ok (nodes (root (run g ops)))"
  by (induction ops arbitrary: g) (simp_all add: exec_shape)

lemma run_load_nonneg:
  "list_all load_nonneg (nodes (root g)) \<Longrightarrow> list_all load_nonneg (nodes (root (run g ops)))"
  by (induction ops arbitrary: g) (simp_all add: exec_load_nonneg)

lemma run_depth:
  "list_all (depth_ok (max_level g)) (nodes (root g)) \<Longrightarrow>
   list_all (depth_ok (max_level g)) (nodes (root (run g ops)))"
proof (induction ops arbitrary: g)
  case Nil
  then show ?case by simp
next
  case (Cons op ops)
  from Cons.prems have "list_all (depth_ok (max_level (exec g op))) (nodes (root (exec g op)))"
    by (simp add: exec_depth)
  then have "list_all (depth_ok (max_level (exec g op))) (nodes (root (run (exec g op) ops)))"
    by (rule Cons.IH)
  then show ?case by simp
qed

lemma contains_cong_cell: "cell n = cell m \<Longrightarrow> contains n x y = contains m x y"
  by (simp add: cell_def contains_def)

lemma run_load_ok:
  assumes shape: "list_all shape_ok (nodes (root g))"
    and covers: "\<And>x y. 0 \<le> x \<Longrightarrow> x < 1 \<Longrightarrow> 0 \<le> y \<Longrightarrow> y < 1 \<Longrightarrow> contains (root g) x y"
    and inv: "list_all load_ok (nodes (root g))"
  shows "list_all load_ok (nodes (root (run g ops)))"
  using assms
proof (induction ops arbitrary: g)
  case Nil
  then show ?case by simp
next
  case (Cons op ops)
  have "list_all shape_ok (nodes (root (exec g op)))"
    using Cons.prems(1) by (rule exec_shape)
  moreover have "contains (root (exec g op)) x y"
    if "0 \<le> x" "x < 1" "0 \<le> y" "y < 1" for x y
  proof -
    from that have "contains (root g) x y" by (rule Cons.prems(2))
    moreover have "cell (root (exec g op)) = cell (root g)" by simp
    then have "contains (root (exec g op)) x y = contains (root g) x y"
      by (rule contains_cong_cell)
    ultimately show ?thesis by simp
  qed
  moreover have "list_all load_ok (nodes (root (exec g op)))"
    using Cons.prems by (rule exec_load_ok)
  ultimately have "list_all load_ok (nodes (root (run (exec g op) ops)))"
    by (rule Cons.IH)
  then show ?case by simp
qed

lemma init_fields [simp]:
  "root (FractalGrid_init x0 y0 x1 y1 ml st mt df di) = Node_init x0 y0 x1 y1 0"
  "max_level (FractalGrid_init x0 y0 x1 y1 ml st mt df di) = ml"
  "split_threshold (FractalGrid_init x0 y0 x1 y1 ml st mt df di) = st"
  "merge_threshold (FractalGrid_init x0 y0 x1 y1 ml st mt df di) = mt"
  by (simp_all add: FractalGrid_init_def)

lemma init_invariants:
  "list_all shape_ok (nodes (Node_init x0 y0 x1 y1 l))"
  "list_all load_ok (nodes (Node_init x0 y0 x1 y1 l))"
  "list_all load_nonneg (nodes (Node_init x0 y0 x1 y1 l))"
  "list_all (depth_ok ml) (nodes (Node_init x0 y0 x1 y1 l))"
  by (simp_all add: all_nodes_leaf shape_ok_def load_ok_def load_nonneg_def depth_ok_def
      is_leaf_def)

subsection \<open>Reachable grids\<close>

lemma find_leaf_lands_run:
  assumes "x0 \<le> x" and "x < x1" and "y0 \<le> y" and "y < y1"
  shows "contains (node_at (root (run (FractalGrid_init x0 y0 x1 y1 ml st mt df di) ops))
           (find_leaf (root (run (FractalGrid_init x0 y0 x1 y1 ml st mt df di) ops)) x y)) x y
       \<and> is_leaf (node_at (root (run (FractalGrid_init x0 y0 x1 y1 ml st mt df di) ops))
           (find_leaf (root (run (FractalGrid_init x0 y0 x1 y1 ml st mt df di) ops)) x y))"
proof -
  let ?G = "FractalGrid_init x0 y0 x1 y1 ml st mt df di"
  let ?r = "root (run ?G ops)"
  have "list_all shape_ok (nodes (root ?G))" by (simp add: init_invariants)
  then have shape: "list_all shape_ok (nodes ?r)" by (rule run_shape)
  have "cell ?r = cell (root ?G)" by simp
  then have "contains ?r x y = contains (root ?G) x y" by (rule contains_cong_cell)
  with assms have "contains ?r x y" by (simp add: contains_def)
  with shape have "is_leaf (node_at ?r (find_leaf ?r x y)) \<and> contains (node_at ?r (find_leaf ?r x y)) x y"
    by (rule find_leaf_lands)
  then show ?thesis by simp
qed

text \<open>
  Over the unit square, the grid of the docstrings (\<^verbatim>\<open>A quadtree over the unit square\<close>),
  and more generally for every point inside the root bounds: in every grid reached by a
  sequence of operations, the node \<^verbatim>\<open>_find_leaf\<close> returns contains the point and is a
  leaf, so the no-matching-child fallback is not taken.
\<close>

theorem find_leaf_contains_point:
  assumes "x0 \<le> x" and "x < x1" and "y0 \<le> y" and "y < y1"
  shows "contains (node_at (root (run (FractalGrid_init x0 y0 x1 y1 ml st mt df di) ops))
           (find_leaf (root (run (FractalGrid_init x0 y0 x1 y1 ml st mt df di) ops)) x y)) x y
       \<and> is_leaf (node_at (root (run (FractalGrid_init x0 y0 x1 y1 ml st mt df di) ops))
           (find_leaf (root (run (FractalGrid_init x0 y0 x1 y1 ml st mt df di) ops)) x y))"
  using assms by (rule find_leaf_lands_run)

lemma find_leaf_leaf: "children n = None \<Longrightarrow> find_leaf n x y = []"
  by (cases n) simp

lemma exec_Set_leaf_root:
  "children (root g) = None \<Longrightarrow> valid_xy x y \<Longrightarrow>
   exec g (Set x y) = g\<lparr>root := rebalance g (add_load (root g))\<rparr>"
  by (simp add: exec_Set find_leaf_leaf)

lemma exec_Get_leaf_root:
  "children (root g) = None \<Longrightarrow> valid_xy x y \<Longrightarrow>
   exec g (Get x y) = g\<lparr>root := add_load (root g)\<rparr>"
  by (simp add: exec_Get find_leaf_leaf)

text \<open>Repeated \<^verbatim>\<open>set\<close> on a grid whose root is a leaf: the load counts the calls until
  the first one that splits.\<close>

lemma repeated_set_counts:
  assumes "valid_xy x y" and "real k \<le> st"
  shows "run (FractalGrid_init x0 y0 x1 y1 ml st mt df di) (replicate k (Set x y))
     = (FractalGrid_init x0 y0 x1 y1 ml st mt df di)\<lparr>root := Node x0 y0 x1 y1 0 None (real k)\<rparr>"
  using assms(2)
proof (induction k)
  case 0
  show ?case by (simp add: FractalGrid_init_def Node_init_def)
next
  case (Suc k)
  let ?G = "FractalGrid_init x0 y0 x1 y1 ml st mt df di"
  let ?g = "?G\<lparr>root := Node x0 y0 x1 y1 0 None (real k)\<rparr>"
  from Suc.prems have "real k \<le> st" by simp
  then have k: "run ?G (replicate k (Set x y)) = ?g" by (rule Suc.IH)
  have "replicate (Suc k) (Set x y) = replicate k (Set x y) @ [Set x y]"
    by (simp add: replicate_append_same)
  then have "run ?G (replicate (Suc k) (Set x y)) = exec ?g (Set x y)"
    by (simp only: run_append k) simp
  also have "\<dots> = ?g\<lparr>root := rebalance ?g (add_load (root ?g))\<rparr>"
    using assms(1) by (simp add: exec_Set_leaf_root)
  also have "rebalance ?g (add_load (root ?g)) = Node x0 y0 x1 y1 0 None (real (Suc k))"
    using Suc.prems by (simp add: rebalance_def add_load_def set_load_def add.commute)
  finally show ?case by simp
qed

lemma first_split:
  assumes "valid_xy x y" and "real k \<le> st" and "st < real k + 1" and "0 < ml"
  shows "run (FractalGrid_init x0 y0 x1 y1 ml st mt df di) (replicate (Suc k) (Set x y))
     = (FractalGrid_init x0 y0 x1 y1 ml st mt df di)
         \<lparr>root := subdivide (Node x0 y0 x1 y1 0 None (real k + 1))\<rparr>"
proof -
  let ?G = "FractalGrid_init x0 y0 x1 y1 ml st mt df di"
  let ?g = "?G\<lparr>root := Node x0 y0 x1 y1 0 None (real k)\<rparr>"
  from assms(1,2) have k: "run ?G (replicate k (Set x y)) = ?g" by (rule repeated_set_counts)
  have "replicate (Suc k) (Set x y) = replicate k (Set x y) @ [Set x y]"
    by (simp add: replicate_append_same)
  then have "run ?G (replicate (Suc k) (Set x y)) = exec ?g (Set x y)"
    by (simp only: run_append k) simp
  also have "\<dots> = ?g\<lparr>root := rebalance ?g (add_load (root ?g))\<rparr>"
    using assms(1) by (simp add: exec_Set_leaf_root)
  also have "rebalance ?g (add_load (root ?g)) = subdivide (Node x0 y0 x1 y1 0 None (real k + 1))"
    using assms(3,4) by (simp add: rebalance_def add_load_def set_load_def is_leaf_def)
  finally show ?thesis by simp
qed

lemma depth_ok_descendants:
  "list_all (depth_ok ml) (nodes n) \<Longrightarrow> list_all (\<lambda>m. level m \<le> ml) (tl (nodes n))"
proof (induction n rule: nodes.induct)
  case (1 a b c d l ld)
  show ?case by (simp add: nodes.simps)
next
  case (2 a b c d l cs ld)
  let ?n = "Node a b c d l (Some cs) ld"
  from "2.prems" have "depth_ok ml ?n" by (rule all_nodes_self)
  then have lv: "\<forall>child \<in> set cs. level child \<le> ml" by (simp add: depth_ok_def list_all_iff)
  have "list_all (\<lambda>m. level m \<le> ml) (nodes child)" if mem: "child \<in> set cs" for child
  proof -
    from "2.prems" mem have "list_all (depth_ok ml) (nodes child)"
      by (simp add: all_nodes_internal)
    with mem have "list_all (\<lambda>m. level m \<le> ml) (tl (nodes child))" by (rule "2.IH")
    moreover from lv mem have "level child \<le> ml" by blast
    ultimately show ?thesis by (subst nodes_unfold) (simp add: nodes_unfold [of child])
  qed
  then show ?case by (simp add: nodes.simps list_all_iff)
qed

lemma nodes_hd_tl: "nodes n = n # tl (nodes n)"
  by (cases n; cases "children n") (simp_all add: nodes.simps)

lemma set_grid_found_node:
  assumes "0 \<le> x" "x < 1" "0 \<le> y" "y < 1"
  shows "node_at (root (snd (set_grid g x y))) (find_leaf (root g) x y)
     = rebalance g (add_load (node_at (root g) (find_leaf (root g) x y)))"
  using assms
  by (simp add: set_grid_valid update_at_twice node_at_update_at find_leaf_valid)

text \<open>
  Claim C4, as amended. Inside \<^verbatim>\<open>set\<close>, after the increment, the found node is subdivided
  exactly when its load exceeds \<open>split_threshold\<close>, its level is below \<open>max_level\<close> and it
  is a leaf. In every grid reached by a sequence of operations the root stays at level 0
  and every other node has a level of at most \<open>max_level\<close>; so no level exceeds
  \<open>max_level\<close> when \<open>max_level\<close> is not negative. With \<open>split_threshold = 5\<close> and
  \<open>max_level = 6\<close>, the first five calls \<^verbatim>\<open>set(0.5, 0.5)\<close> on a fresh grid leave the root a
  leaf with the calls counted in its load, and the sixth call splits it at load 6.
\<close>

theorem split_guard_depth_cap:
  "(0 \<le> x \<and> x < 1 \<and> 0 \<le> y \<and> y < 1 \<longrightarrow>
      node_at (root (snd (set_grid g x y))) (find_leaf (root g) x y)
        = (if split_threshold g < load (node_at (root g) (find_leaf (root g) x y)) + 1
              \<and> level (node_at (root g) (find_leaf (root g) x y)) < max_level g
              \<and> is_leaf (node_at (root g) (find_leaf (root g) x y))
           then subdivide (add_load (node_at (root g) (find_leaf (root g) x y)))
           else add_load (node_at (root g) (find_leaf (root g) x y))))
   \<and> level (root (run (FractalGrid_init x0 y0 x1 y1 ml st mt df di) ops)) = 0
   \<and> list_all (\<lambda>n. level n \<le> ml)
         (tl (nodes (root (run (FractalGrid_init x0 y0 x1 y1 ml st mt df di) ops))))
   \<and> (0 \<le> ml \<longrightarrow> list_all (\<lambda>n. level n \<le> ml)
         (nodes (root (run (FractalGrid_init x0 y0 x1 y1 ml st mt df di) ops))))
   \<and> (\<forall>k \<le> 5. root (run (FractalGrid_init x0 y0 x1 y1 6 5 mt df di)
                     (replicate k (Set (1 / 2) (1 / 2))))
                = Node x0 y0 x1 y1 0 None (real k))
   \<and> root (run (FractalGrid_init x0 y0 x1 y1 6 5 mt df di) (replicate 6 (Set (1 / 2) (1 / 2))))
       = subdivide (Node x0 y0 x1 y1 0 None 6)"
proof -
  let ?G = "FractalGrid_init x0 y0 x1 y1 ml st mt df di"
  let ?r = "root (run ?G ops)"
  let ?H = "FractalGrid_init x0 y0 x1 y1 6 5 mt df di"
  have guard: "0 \<le> x \<and> x < 1 \<and> 0 \<le> y \<and> y < 1 \<longrightarrow>
      node_at (root (snd (set_grid g x y))) (find_leaf (root g) x y)
        = (if split_threshold g < load (node_at (root g) (find_leaf (root g) x y)) + 1
              \<and> level (node_at (root g) (find_leaf (root g) x y)) < max_level g
              \<and> is_leaf (node_at (root g) (find_leaf (root g) x y))
           then subdivide (add_load (node_at (root g) (find_leaf (root g) x y)))
           else add_load (node_at (root g) (find_leaf (root g) x y)))"
  proof
    let ?n = "node_at (root g) (find_leaf (root g) x y)"
    assume "0 \<le> x \<and> x < 1 \<and> 0 \<le> y \<and> y < 1"
    then have "node_at (root (snd (set_grid g x y))) (find_leaf (root g) x y)
        = rebalance g (add_load ?n)"
      by (simp add: set_grid_found_node)
    also have "rebalance g (add_load ?n)
        = (if split_threshold g < load ?n + 1 \<and> level ?n < max_level g \<and> is_leaf ?n
           then subdivide (add_load ?n) else add_load ?n)"
      by (simp add: rebalance_def add_load_def)
    finally show "node_at (root (snd (set_grid g x y))) (find_leaf (root g) x y)
        = (if split_threshold g < load ?n + 1 \<and> level ?n < max_level g \<and> is_leaf ?n
           then subdivide (add_load ?n) else add_load ?n)" .
  qed
  have "cell ?r = cell (root ?G)" by simp
  then have root_level: "level ?r = 0" by (simp add: cell_def)
  have "list_all (depth_ok (max_level ?G)) (nodes (root ?G))" by (simp add: init_invariants)
  then have "list_all (depth_ok (max_level ?G)) (nodes ?r)" by (rule run_depth)
  then have "list_all (depth_ok ml) (nodes ?r)" by simp
  then have below: "list_all (\<lambda>n. level n \<le> ml) (tl (nodes ?r))" by (rule depth_ok_descendants)
  have all: "0 \<le> ml \<longrightarrow> list_all (\<lambda>n. level n \<le> ml) (nodes ?r)"
  proof
    assume "0 \<le> ml"
    with root_level below show "list_all (\<lambda>n. level n \<le> ml) (nodes ?r)"
      by (subst nodes_hd_tl) simp
  qed
  have valid: "valid_xy (1 / 2) (1 / 2)" by (simp add: valid_xy_def)
  have five: "\<forall>k \<le> 5. root (run ?H (replicate k (Set (1 / 2) (1 / 2))))
      = Node x0 y0 x1 y1 0 None (real k)"
  proof (intro allI impI)
    fix k :: nat assume "k \<le> 5"
    then have "real k \<le> 5" by simp
    with valid have "run ?H (replicate k (Set (1 / 2) (1 / 2)))
        = ?H\<lparr>root := Node x0 y0 x1 y1 0 None (real k)\<rparr>"
      by (rule repeated_set_counts)
    then show "root (run ?H (replicate k (Set (1 / 2) (1 / 2)))) = Node x0 y0 x1 y1 0 None (real k)"
      by simp
  qed
  have "run ?H (replicate (Suc 5) (Set (1 / 2) (1 / 2)))
      = ?H\<lparr>root := subdivide (Node x0 y0 x1 y1 0 None (real 5 + 1))\<rparr>"
    using valid by (rule first_split) simp_all
  moreover have "Suc 5 = 6" by simp
  ultimately have six: "root (run ?H (replicate 6 (Set (1 / 2) (1 / 2))))
      = subdivide (Node x0 y0 x1 y1 0 None 6)"
    by simp
  from guard root_level below all five six show ?thesis by blast
qed

text \<open>
  In every grid reached from a freshly constructed one by a sequence of \<^verbatim>\<open>get\<close>, \<^verbatim>\<open>set\<close>,
  \<^verbatim>\<open>periodic_rebalance\<close>, \<^verbatim>\<open>decay_load\<close> and \<^verbatim>\<open>get_leaves\<close> calls, no load is negative.
  When the root bounds contain the unit square, as they do for the grid of the
  docstrings, every internal node moreover has load 0 and the node that \<^verbatim>\<open>get\<close> and
  \<^verbatim>\<open>set\<close> increment for valid coordinates is a leaf.
\<close>

theorem loads_nonneg_internal_zero:
  "list_all (\<lambda>n. 0 \<le> load n)
      (nodes (root (run (FractalGrid_init x0 y0 x1 y1 ml st mt df di) ops)))
   \<and> (x0 \<le> 0 \<and> 1 \<le> x1 \<and> y0 \<le> 0 \<and> 1 \<le> y1 \<longrightarrow>
        list_all (\<lambda>n. 0 \<le> load n \<and> (\<not> is_leaf n \<longrightarrow> load n = 0))
          (nodes (root (run (FractalGrid_init x0 y0 x1 y1 ml st mt df di) ops)))
        \<and> (0 \<le> x \<and> x < 1 \<and> 0 \<le> y \<and> y < 1 \<longrightarrow>
             is_leaf (node_at (root (run (FractalGrid_init x0 y0 x1 y1 ml st mt df di) ops))
               (find_leaf (root (run (FractalGrid_init x0 y0 x1 y1 ml st mt df di) ops)) x y))))"
proof -
  let ?G = "FractalGrid_init x0 y0 x1 y1 ml st mt df di"
  let ?r = "root (run ?G ops)"
  have "list_all load_nonneg (nodes (root ?G))" by (simp add: init_invariants)
  then have "list_all load_nonneg (nodes ?r)" by (rule run_load_nonneg)
  then have nonneg: "list_all (\<lambda>n. 0 \<le> load n) (nodes ?r)"
    by (simp add: list_all_iff load_nonneg_def)
  have rest: "list_all (\<lambda>n. 0 \<le> load n \<and> (\<not> is_leaf n \<longrightarrow> load n = 0)) (nodes ?r)
      \<and> (0 \<le> x \<and> x < 1 \<and> 0 \<le> y \<and> y < 1 \<longrightarrow> is_leaf (node_at ?r (find_leaf ?r x y)))"
    if bounds: "x0 \<le> 0 \<and> 1 \<le> x1 \<and> y0 \<le> 0 \<and> 1 \<le> y1"
  proof
    have shape: "list_all shape_ok (nodes (root ?G))" by (simp add: init_invariants)
    have covers: "contains (root ?G) u v" if "0 \<le> u" "u < 1" "0 \<le> v" "v < 1" for u v
      using bounds that by (simp add: contains_def)
    have "list_all load_ok (nodes (root ?G))" by (simp add: init_invariants)
    with shape covers have "list_all load_ok (nodes ?r)" by (rule run_load_ok)
    then show "list_all (\<lambda>n. 0 \<le> load n \<and> (\<not> is_leaf n \<longrightarrow> load n = 0)) (nodes ?r)"
      by (auto simp: list_all_iff load_ok_def)
    show "0 \<le> x \<and> x < 1 \<and> 0 \<le> y \<and> y < 1 \<longrightarrow> is_leaf (node_at ?r (find_leaf ?r x y))"
    proof
      assume "0 \<le> x \<and> x < 1 \<and> 0 \<le> y \<and> y < 1"
      with bounds have "x0 \<le> x" "x < x1" "y0 \<le> y" "y < y1" by simp_all
      then show "is_leaf (node_at ?r (find_leaf ?r x y))"
        using find_leaf_lands_run [of x0 x x1 y0 y y1 ml st mt df di ops] by simp
    qed
  qed
  from nonneg rest show ?thesis by blast
qed

lemma subdivide_eq:
  "subdivide n = Node (x_min n) (y_min n) (x_max n) (y_max n) (level n)
     (Some [Node (x_min n) (y_min n) ((x_min n + x_max n) / 2) ((y_min n + y_max n) / 2)
              (level n + 1) None (load n / 4),
            Node ((x_min n + x_max n) / 2) (y_min n) (x_max n) ((y_min n + y_max n) / 2)
              (level n + 1) None (load n / 4),
            Node (x_min n) ((y_min n + y_max n) / 2) ((x_min n + x_max n) / 2) (y_max n)
              (level n + 1) None (load n / 4),
            Node ((x_min n + x_max n) / 2) ((y_min n + y_max n) / 2) (x_max n) (y_max n)
              (level n + 1) None (load n / 4)]) 0"
  by (simp add: subdivide_def Let_def Node_init_def set_load_def set_children_def)

lemma off_grid_six_sets:
  "run (FractalGrid_init (1 / 2) 0 1 1 6 5 2 (9 / 10) 1) (replicate 6 (Set (1 / 4) (1 / 4)))
     = (FractalGrid_init (1 / 2) 0 1 1 6 5 2 (9 / 10) 1)
         \<lparr>root := subdivide (Node (1 / 2) 0 1 1 0 None 6)\<rparr>"
proof -
  have "valid_xy (1 / 4) (1 / 4)" by (simp add: valid_xy_def)
  then have "run (FractalGrid_init (1 / 2) 0 1 1 6 5 2 (9 / 10) 1)
      (replicate (Suc 5) (Set (1 / 4) (1 / 4)))
     = (FractalGrid_init (1 / 2) 0 1 1 6 5 2 (9 / 10) 1)
         \<lparr>root := subdivide (Node (1 / 2) 0 1 1 0 None (real 5 + 1))\<rparr>"
    by (rule first_split) simp_all
  moreover have "Suc 5 = 6" by simp
  ultimately show ?thesis by simp
qed

lemma off_grid_fallback:
  "find_leaf (subdivide (Node (1 / 2) 0 1 1 0 None 6)) (1 / 4) (1 / 4) = []"
  by (simp add: subdivide_eq contains_def)

text \<open>
  Claim C3. For every valid point and every reachable tree the node \<^verbatim>\<open>_find_leaf\<close> returns
  should contain the point. \<^verbatim>\<open>validate_coord\<close> tests against \<open>[0, 1)\<close> whatever bounds
  \<^verbatim>\<open>__init__\<close> gave the root, although both classes are documented as covering the unit
  square. For \<^verbatim>\<open>FractalGrid(x_min=0.5)\<close> the point \<open>(0.25, 0.25)\<close> is accepted and lies
  outside the root; after six calls \<^verbatim>\<open>set(0.25, 0.25)\<close> the root is internal, no child
  contains the point, and \<^verbatim>\<open>_find_leaf\<close> stops at the root, which is not a leaf and does
  not contain the point.
\<close>

theorem find_leaf_off_grid_misses_point:
  "validate_coord (1 / 4) = Inr (1 / 4)
   \<and> \<not> contains (root (FractalGrid_init (1 / 2) 0 1 1 6 5 2 (9 / 10) 1)) (1 / 4) (1 / 4)
   \<and> find_leaf (root (run (FractalGrid_init (1 / 2) 0 1 1 6 5 2 (9 / 10) 1)
            (replicate 6 (Set (1 / 4) (1 / 4))))) (1 / 4) (1 / 4) = []
   \<and> \<not> is_leaf (node_at
         (root (run (FractalGrid_init (1 / 2) 0 1 1 6 5 2 (9 / 10) 1)
            (replicate 6 (Set (1 / 4) (1 / 4)))))
         (find_leaf (root (run (FractalGrid_init (1 / 2) 0 1 1 6 5 2 (9 / 10) 1)
            (replicate 6 (Set (1 / 4) (1 / 4))))) (1 / 4) (1 / 4)))
   \<and> \<not> contains (node_at
         (root (run (FractalGrid_init (1 / 2) 0 1 1 6 5 2 (9 / 10) 1)
            (replicate 6 (Set (1 / 4) (1 / 4)))))
         (find_leaf (root (run (FractalGrid_init (1 / 2) 0 1 1 6 5 2 (9 / 10) 1)
            (replicate 6 (Set (1 / 4) (1 / 4))))) (1 / 4) (1 / 4))) (1 / 4) (1 / 4)"
  by (simp add: off_grid_six_sets off_grid_fallback contains_def Node_init_def)

text \<open>
  Claim C2. Every internal node's load should be 0 and the node that \<^verbatim>\<open>get\<close> increments
  should never be internal. On the same grid, from the same mismatch between
  \<^verbatim>\<open>validate_coord\<close> and the root bounds, a seventh call \<^verbatim>\<open>get(0.25, 0.25)\<close> raises
  nothing, returns 1 and leaves the internal root with load 1; \<^verbatim>\<open>decay_load\<close> visits only
  leaves, so the load stays 1 afterwards.
\<close>

theorem get_off_grid_loads_internal_root:
  "fst (get (run (FractalGrid_init (1 / 2) 0 1 1 6 5 2 (9 / 10) 1)
          (replicate 6 (Set (1 / 4) (1 / 4)))) (1 / 4) (1 / 4)) = Inr 1
   \<and> \<not> is_leaf (root (run (FractalGrid_init (1 / 2) 0 1 1 6 5 2 (9 / 10) 1)
        (replicate 6 (Set (1 / 4) (1 / 4)) @ [Get (1 / 4) (1 / 4)])))
   \<and> load (root (run (FractalGrid_init (1 / 2) 0 1 1 6 5 2 (9 / 10) 1)
        (replicate 6 (Set (1 / 4) (1 / 4)) @ [Get (1 / 4) (1 / 4)]))) = 1
   \<and> load (root (run (FractalGrid_init (1 / 2) 0 1 1 6 5 2 (9 / 10) 1)
        (replicate 6 (Set (1 / 4) (1 / 4)) @ [Get (1 / 4) (1 / 4), DecayLoad (9 / 10)]))) = 1"
proof -
  let ?G = "FractalGrid_init (1 / 2) 0 1 1 6 5 2 (9 / 10) 1"
  let ?six = "replicate 6 (Set (1 / 4) (1 / 4))"
  have returned: "fst (get (run ?G ?six) (1 / 4) (1 / 4)) = Inr 1"
    by (simp add: get_valid off_grid_six_sets off_grid_fallback)
  have after: "root (run ?G (?six @ [Get (1 / 4) (1 / 4)]))
      = add_load (subdivide (Node (1 / 2) 0 1 1 0 None 6))"
    by (simp add: run_append off_grid_six_sets off_grid_fallback exec_Get valid_xy_def)
  have internal: "\<not> is_leaf (root (run ?G (?six @ [Get (1 / 4) (1 / 4)])))"
    unfolding after by (simp add: add_load_def)
  have loaded: "load (root (run ?G (?six @ [Get (1 / 4) (1 / 4)]))) = 1"
    unfolding after by (simp add: add_load_def)
  have "?six @ [Get (1 / 4) (1 / 4), DecayLoad (9 / 10)]
      = (?six @ [Get (1 / 4) (1 / 4)]) @ [DecayLoad (9 / 10)]"
    by simp
  then have "root (run ?G (?six @ [Get (1 / 4) (1 / 4), DecayLoad (9 / 10)]))
      = decay (9 / 10) (add_load (subdivide (Node (1 / 2) 0 1 1 0 None 6)))"
    by (simp only: run_append after [symmetric]) (simp add: exec_DecayLoad)
  also have "load \<dots> = 1"
    by (simp add: add_load_def subdivide_eq set_load_def decay.simps)
  finally have stuck: "load (root (run ?G (?six @ [Get (1 / 4) (1 / 4), DecayLoad (9 / 10)]))) = 1" .
  from returned internal loaded stuck show ?thesis by blast
qed

text \<open>
  Claim C4 as stated fails for a grid constructed with \<^verbatim>\<open>max_level=-1\<close>: its root is at
  level 0.
\<close>

theorem depth_cap_counterexample:
  "max_level (run (FractalGrid_init 0 0 1 1 (- 1) 5 2 (9 / 10) 1) []) = - 1
   \<and> level (root (run (FractalGrid_init 0 0 1 1 (- 1) 5 2 (9 / 10) 1) [])) = 0
   \<and> \<not> list_all (\<lambda>n. level n \<le> - 1)
         (nodes (root (run (FractalGrid_init 0 0 1 1 (- 1) 5 2 (9 / 10) 1) [])))"
  by (simp add: Node_init_def nodes.simps)

theorem find_leaf_contains_point_witness:
  "(0::real) \<le> 1 / 2 \<and> (1 / 2 :: real) < 1
   \<and> contains (node_at (root (run FractalGrid_default (replicate 6 (Set (1 / 2) (1 / 2)))))
           (find_leaf (root (run FractalGrid_default (replicate 6 (Set (1 / 2) (1 / 2)))))
              (1 / 2) (1 / 2))) (1 / 2) (1 / 2)
   \<and> is_leaf (node_at (root (run FractalGrid_default (replicate 6 (Set (1 / 2) (1 / 2)))))
           (find_leaf (root (run FractalGrid_default (replicate 6 (Set (1 / 2) (1 / 2)))))
              (1 / 2) (1 / 2)))"
proof -
  have lo: "(0::real) \<le> 1 / 2" and hi: "(1 / 2 :: real) < 1" by simp_all
  from find_leaf_contains_point [OF lo hi lo hi, where ml = 6 and st = 5 and mt = 2
      and df = "9 / 10" and di = 1 and ops = "replicate 6 (Set (1 / 2) (1 / 2))"] lo hi
  show ?thesis unfolding FractalGrid_default_def by blast
qed

theorem loads_nonneg_internal_zero_witness:
  "((0::real) \<le> 0 \<and> (1::real) \<le> 1 \<and> (0::real) \<le> 0 \<and> (1::real) \<le> 1)
   \<and> ((0::real) \<le> 1 / 2 \<and> (1 / 2 :: real) < 1 \<and> (0::real) \<le> 1 / 2 \<and> (1 / 2 :: real) < 1)
   \<and> list_all (\<lambda>n. 0 \<le> load n \<and> (is_leaf n \<or> load n = 0))
         (nodes (root (run FractalGrid_default
            (replicate 6 (Set (1 / 2) (1 / 2)) @ [Get (1 / 2) (1 / 2)]))))
   \<and> is_leaf (node_at
         (root (run FractalGrid_default (replicate 6 (Set (1 / 2) (1 / 2)) @ [Get (1 / 2) (1 / 2)])))
         (find_leaf (root (run FractalGrid_default
            (replicate 6 (Set (1 / 2) (1 / 2)) @ [Get (1 / 2) (1 / 2)]))) (1 / 2) (1 / 2)))"
proof -
  have b: "(0::real) \<le> 0 \<and> (1::real) \<le> 1 \<and> (0::real) \<le> 0 \<and> (1::real) \<le> 1" by simp
  have v: "(0::real) \<le> 1 / 2 \<and> (1 / 2 :: real) < 1 \<and> (0::real) \<le> 1 / 2 \<and> (1 / 2 :: real) < 1"
    by simp
  let ?r = "root (run FractalGrid_default
      (replicate 6 (Set (1 / 2) (1 / 2)) @ [Get (1 / 2) (1 / 2)]))"
  from loads_nonneg_internal_zero [where ?x0.0 = 0 and ?y0.0 = 0 and ?x1.0 = 1 and ?y1.0 = 1
      and ml = 6 and st = 5 and mt = 2 and df = "9 / 10" and di = 1
      and ops = "replicate 6 (Set (1 / 2) (1 / 2)) @ [Get (1 / 2) (1 / 2)]"
      and x = "1 / 2" and y = "1 / 2"] b v
  have "list_all (\<lambda>n. 0 \<le> load n \<and> (\<not> is_leaf n \<longrightarrow> load n = 0)) (nodes ?r)
      \<and> is_leaf (node_at ?r (find_leaf ?r (1 / 2) (1 / 2)))"
    unfolding FractalGrid_default_def by blast
  then have "list_all (\<lambda>n. 0 \<le> load n \<and> (is_leaf n \<or> load n = 0)) (nodes ?r)
      \<and> is_leaf (node_at ?r (find_leaf ?r (1 / 2) (1 / 2)))"
    by (auto simp: list_all_iff)
  with b v show ?thesis by blast
qed

theorem split_guard_depth_cap_witness:
  "((0::real) \<le> 1 / 2 \<and> (1 / 2 :: real) < 1 \<and> (0::real) \<le> 1 / 2 \<and> (1 / 2 :: real) < 1)
   \<and> (0::int) \<le> 6 \<and> (3::nat) \<le> 5
   \<and> list_all (\<lambda>n. level n \<le> 6)
         (nodes (root (run FractalGrid_default (replicate 6 (Set (1 / 2) (1 / 2))))))
   \<and> root (run FractalGrid_default (replicate 3 (Set (1 / 2) (1 / 2)))) = Node 0 0 1 1 0 None 3
   \<and> node_at (root (snd (set_grid
          (run FractalGrid_default (replicate 5 (Set (1 / 2) (1 / 2)))) (1 / 2) (1 / 2)))) []
       = subdivide (Node 0 0 1 1 0 None 6)"
proof -
  let ?g5 = "run FractalGrid_default (replicate 5 (Set (1 / 2) (1 / 2)))"
  have v: "(0::real) \<le> 1 / 2 \<and> (1 / 2 :: real) < 1 \<and> (0::real) \<le> 1 / 2 \<and> (1 / 2 :: real) < 1"
    by simp
  have ml: "(0::int) \<le> 6" and k: "(3::nat) \<le> 5" by simp_all
  note inst = split_guard_depth_cap [where x = "1 / 2" and y = "1 / 2" and g = ?g5
      and ?x0.0 = 0 and ?y0.0 = 0 and ?x1.0 = 1 and ?y1.0 = 1 and ml = 6 and st = 5 and mt = 2
      and df = "9 / 10" and di = 1 and ops = "replicate 6 (Set (1 / 2) (1 / 2))"]
  from inst ml have a: "list_all (\<lambda>n. level n \<le> 6)
      (nodes (root (run FractalGrid_default (replicate 6 (Set (1 / 2) (1 / 2))))))"
    unfolding FractalGrid_default_def by blast
  from inst k have "root (run FractalGrid_default (replicate 3 (Set (1 / 2) (1 / 2))))
      = Node 0 0 1 1 0 None (real 3)"
    unfolding FractalGrid_default_def by blast
  then have b: "root (run FractalGrid_default (replicate 3 (Set (1 / 2) (1 / 2))))
      = Node 0 0 1 1 0 None 3" by simp
  have g5: "?g5 = (FractalGrid_init 0 0 1 1 6 5 2 (9 / 10) 1)\<lparr>root := Node 0 0 1 1 0 None 5\<rparr>"
    using repeated_set_counts [where x = "1 / 2" and y = "1 / 2" and k = 5 and st = 5
        and ?x0.0 = 0 and ?y0.0 = 0 and ?x1.0 = 1 and ?y1.0 = 1 and ml = 6 and mt = 2
        and df = "9 / 10" and di = 1]
    by (simp add: FractalGrid_default_def valid_xy_def)
  from inst v have "node_at (root (snd (set_grid ?g5 (1 / 2) (1 / 2))))
        (find_leaf (root ?g5) (1 / 2) (1 / 2))
      = (if split_threshold ?g5 < load (node_at (root ?g5) (find_leaf (root ?g5) (1 / 2) (1 / 2))) + 1
            \<and> level (node_at (root ?g5) (find_leaf (root ?g5) (1 / 2) (1 / 2))) < max_level ?g5
            \<and> is_leaf (node_at (root ?g5) (find_leaf (root ?g5) (1 / 2) (1 / 2)))
         then subdivide (add_load (node_at (root ?g5) (find_leaf (root ?g5) (1 / 2) (1 / 2))))
         else add_load (node_at (root ?g5) (find_leaf (root ?g5) (1 / 2) (1 / 2))))"
    by blast
  then have c: "node_at (root (snd (set_grid ?g5 (1 / 2) (1 / 2)))) []
      = subdivide (Node 0 0 1 1 0 None 6)"
    unfolding g5 by (simp add: add_load_def set_load_def is_leaf_def)
  from v ml k a b c show ?thesis by blast
qed

subsection \<open>Merging\<close>

lemma merge_internal:
  "children n = Some cs \<Longrightarrow> merge n = Inr (set_load (set_children n None) (sum_list (map load cs)))"
  by (simp add: merge_def)

lemma swept_leaf: "is_leaf c \<Longrightarrow> projr (merge_repeatedly mt c) = c"
  by (simp add: is_leaf_def merge_repeatedly_leaf)

text \<open>
  Claim C7. \<^verbatim>\<open>merge\<close> on an internal node with four leaf children makes it a leaf whose
  load is the sum of the four children's loads. When the root is such a node, the loads
  add up to 4 and \<open>merge_threshold\<close> is 10, \<^verbatim>\<open>periodic_rebalance\<close> returns the grid with the
  root merged into a leaf of load 4.
\<close>

theorem merge_sums_children:
  "(children n = Some [c0, c1, c2, c3] \<and> is_leaf c0 \<and> is_leaf c1 \<and> is_leaf c2 \<and> is_leaf c3
      \<longrightarrow> merge n = Inr (Node (x_min n) (y_min n) (x_max n) (y_max n) (level n) None
                        (load c0 + load c1 + load c2 + load c3)))
   \<and> (children (root g) = Some [c0, c1, c2, c3]
        \<and> is_leaf c0 \<and> is_leaf c1 \<and> is_leaf c2 \<and> is_leaf c3
        \<and> load c0 + load c1 + load c2 + load c3 = 4 \<and> merge_threshold g = 10
      \<longrightarrow> periodic_rebalance g
            = Inr (g\<lparr>root := Node (x_min (root g)) (y_min (root g)) (x_max (root g))
                               (y_max (root g)) (level (root g)) None 4\<rparr>))"
proof (intro conjI impI)
  assume "children n = Some [c0, c1, c2, c3] \<and> is_leaf c0 \<and> is_leaf c1 \<and> is_leaf c2 \<and> is_leaf c3"
  then show "merge n = Inr (Node (x_min n) (y_min n) (x_max n) (y_max n) (level n) None
      (load c0 + load c1 + load c2 + load c3))"
    by (simp add: merge_internal set_load_def set_children_def)
next
  let ?r = "root g"
  assume a: "children ?r = Some [c0, c1, c2, c3]
      \<and> is_leaf c0 \<and> is_leaf c1 \<and> is_leaf c2 \<and> is_leaf c3
      \<and> load c0 + load c1 + load c2 + load c3 = 4 \<and> merge_threshold g = 10"
  then have kids: "children ?r = Some [c0, c1, c2, c3]" by simp
  from a have same: "map (\<lambda>child. projr (merge_repeatedly 10 child)) [c0, c1, c2, c3]
      = [c0, c1, c2, c3]"
    by (simp add: swept_leaf)
  from a have can: "can_merge (set_children ?r (Some [c0, c1, c2, c3])) 10"
    by (simp add: can_merge_iff)
  from a have total: "sum_list (map load [c0, c1, c2, c3]) = 4" by simp
  have "merge_repeatedly 10 ?r = Inr (set_load (set_children ?r None) 4)"
    by (simp only: merge_repeatedly_internal [OF kids] same Let_def can total if_True)
  with a show "periodic_rebalance g
      = Inr (g\<lparr>root := Node (x_min ?r) (y_min ?r) (x_max ?r) (y_max ?r) (level ?r) None 4\<rparr>)"
    by (simp add: periodic_rebalance_def set_load_def set_children_def)
qed

theorem merge_sums_children_witness:
  "children (subdivide (Node 0 0 1 1 0 None 4))
     = Some [Node 0 0 (1 / 2) (1 / 2) 1 None 1, Node (1 / 2) 0 1 (1 / 2) 1 None 1,
             Node 0 (1 / 2) (1 / 2) 1 1 None 1, Node (1 / 2) (1 / 2) 1 1 1 None 1]
   \<and> is_leaf (Node 0 0 (1 / 2) (1 / 2) 1 None 1)
   \<and> (1 + 1 + 1 + 1 :: real) = 4
   \<and> merge (subdivide (Node 0 0 1 1 0 None 4)) = Inr (Node 0 0 1 1 0 None 4)
   \<and> periodic_rebalance
        ((FractalGrid_init 0 0 1 1 6 5 10 (9 / 10) 1)\<lparr>root := subdivide (Node 0 0 1 1 0 None 4)\<rparr>)
       = Inr ((FractalGrid_init 0 0 1 1 6 5 10 (9 / 10) 1)\<lparr>root := Node 0 0 1 1 0 None 4\<rparr>)"
proof -
  let ?c0 = "Node 0 0 (1 / 2) (1 / 2) 1 None 1" and ?c1 = "Node (1 / 2) 0 1 (1 / 2) 1 None 1"
    and ?c2 = "Node 0 (1 / 2) (1 / 2) 1 1 None 1" and ?c3 = "Node (1 / 2) (1 / 2) 1 1 1 None 1"
  let ?n = "subdivide (Node 0 0 1 1 0 None 4)"
  let ?g = "(FractalGrid_init 0 0 1 1 6 5 10 (9 / 10) 1)\<lparr>root := ?n\<rparr>"
  have kids: "children ?n = Some [?c0, ?c1, ?c2, ?c3]" by (simp add: subdivide_children)
  have leaves: "is_leaf ?c0 \<and> is_leaf ?c1 \<and> is_leaf ?c2 \<and> is_leaf ?c3" by (simp add: is_leaf_def)
  have total: "load ?c0 + load ?c1 + load ?c2 + load ?c3 = 4" by simp
  have mt: "merge_threshold ?g = 10" by simp
  have rk: "children (root ?g) = Some [?c0, ?c1, ?c2, ?c3]" using kids by simp
  note inst = merge_sums_children [where n = ?n and g = ?g and ?c0.0 = ?c0 and ?c1.0 = ?c1
      and ?c2.0 = ?c2 and ?c3.0 = ?c3]
  from inst kids leaves have m: "merge ?n = Inr (Node (x_min ?n) (y_min ?n) (x_max ?n) (y_max ?n)
      (level ?n) None (load ?c0 + load ?c1 + load ?c2 + load ?c3))"
    by blast
  from inst rk leaves total mt have p: "periodic_rebalance ?g
      = Inr (?g\<lparr>root := Node (x_min (root ?g)) (y_min (root ?g)) (x_max (root ?g))
           (y_max (root ?g)) (level (root ?g)) None 4\<rparr>)"
    by blast
  from m have m': "merge ?n = Inr (Node 0 0 1 1 0 None 4)" by simp
  from p have p': "periodic_rebalance ?g
      = Inr ((FractalGrid_init 0 0 1 1 6 5 10 (9 / 10) 1)\<lparr>root := Node 0 0 1 1 0 None 4\<rparr>)"
    by simp
  from kids leaves m' p' show ?thesis by simp
qed

lemma gather_leaf: "children n = None \<Longrightarrow> gather n = [n]"
  by (cases n) simp

lemma gather_internal: "children n = Some cs \<Longrightarrow> gather n = concat (map gather cs)"
  by (cases n) simp

declare gather.simps [simp del]

lemma sum_concat_map:
  fixes f :: "'a \<Rightarrow> real"
  shows "sum_list (map f (concat xss)) = sum_list (map (\<lambda>xs. sum_list (map f xs)) xss)"
  by (induction xss) simp_all

lemma sum_loads_gather_internal:
  "children n = Some cs \<Longrightarrow>
   sum_list (map load (gather n)) = sum_list (map (\<lambda>c. sum_list (map load (gather c))) cs)"
  by (simp add: gather_internal sum_concat_map comp_def)

lemma member_le_sum_nonneg:
  fixes f :: "'a \<Rightarrow> real"
  shows "\<forall>x \<in> set xs. 0 \<le> f x \<Longrightarrow> c \<in> set xs \<Longrightarrow> f c \<le> sum_list (map f xs)"
proof (induction xs)
  case Nil
  then show ?case by simp
next
  case (Cons x xs)
  from Cons.prems(1) have rest: "0 \<le> sum_list (map f xs)" by (intro sum_list_nonneg) auto
  show ?case
  proof (cases "c = x")
    case True
    with rest show ?thesis by simp
  next
    case False
    with Cons.prems have "c \<in> set xs" and "\<forall>x \<in> set xs. 0 \<le> f x" by simp_all
    then have "f c \<le> sum_list (map f xs)" using Cons.IH by blast
    moreover from Cons.prems(1) have "0 \<le> f x" by simp
    ultimately show ?thesis by simp
  qed
qed

lemma leafify_leaf: "children n = None \<Longrightarrow> set_load (set_children n None) (load n) = n"
  by (cases n) (simp add: set_load_def set_children_def)

lemma sweep_collapses:
  "list_all (\<lambda>m. 0 \<le> load m) (gather n) \<Longrightarrow> sum_list (map load (gather n)) < mt \<Longrightarrow>
   merge_repeatedly mt n
     = Inr (set_load (set_children n None) (sum_list (map load (gather n))))"
proof (induction n rule: nodes.induct)
  case (1 a b c d l ld)
  show ?case by (simp add: merge_repeatedly_leaf gather_leaf set_load_def set_children_def)
next
  case (2 a b c d l cs ld)
  let ?n = "Node a b c d l (Some cs) ld"
  let ?total = "\<lambda>c. sum_list (map load (gather c))"
  let ?flat = "\<lambda>c. set_load (set_children c None) (?total c)"
  have kids: "children ?n = Some cs" by simp
  from "2.prems"(1) have nonneg: "\<forall>child \<in> set cs. list_all (\<lambda>m. 0 \<le> load m) (gather child)"
    by (simp add: gather_internal list_all_iff)
  have totals_nonneg: "\<forall>child \<in> set cs. 0 \<le> ?total child"
  proof
    fix child assume "child \<in> set cs"
    with nonneg have "list_all (\<lambda>m. 0 \<le> load m) (gather child)" by blast
    then show "0 \<le> ?total child" by (intro sum_list_nonneg) (auto simp: list_all_iff)
  qed
  have whole: "?total ?n = sum_list (map ?total cs)"
    by (rule sum_loads_gather_internal [OF kids])
  have swept: "projr (merge_repeatedly mt child) = ?flat child" if mem: "child \<in> set cs" for child
  proof -
    from totals_nonneg mem have "?total child \<le> sum_list (map ?total cs)"
      by (rule member_le_sum_nonneg)
    with whole "2.prems"(2) have "?total child < mt" by simp
    moreover from nonneg mem have "list_all (\<lambda>m. 0 \<le> load m) (gather child)" by blast
    ultimately have "merge_repeatedly mt child = Inr (?flat child)"
      using mem by (intro "2.IH")
    then show ?thesis by simp
  qed
  then have cs': "map (\<lambda>child. projr (merge_repeatedly mt child)) cs = map ?flat cs"
    by simp
  have loads: "map load (map ?flat cs) = map ?total cs" by (simp add: comp_def)
  have "list_all is_leaf (map ?flat cs)" by (simp add: list_all_iff is_leaf_def)
  moreover from whole "2.prems"(2) have "sum_list (map load (map ?flat cs)) < mt"
    by (simp only: loads)
  ultimately have can: "can_merge (set_children ?n (Some (map ?flat cs))) mt"
    by (simp add: can_merge_iff)
  have "merge_repeatedly mt ?n
      = Inr (set_load (set_children ?n None) (sum_list (map load (map ?flat cs))))"
    by (simp only: merge_repeatedly_internal [OF kids] cs' Let_def can if_True)
  then show ?case by (simp only: loads whole)
qed

lemma gather_subset_nodes: "set (gather n) \<subseteq> set (nodes n)"
proof (induction n rule: nodes.induct)
  case (1 a b c d l ld)
  show ?case by (simp add: gather_leaf nodes.simps)
next
  case (2 a b c d l cs ld)
  then show ?case by (auto simp: gather_internal nodes.simps)
qed

text \<open>
  Claim C9. The sweep of \<^verbatim>\<open>periodic_rebalance\<close> on an internal node first sweeps every
  child, then tests \<^verbatim>\<open>can_merge\<close> on the node with the swept children and merges it in the
  same pass when the test holds. Hence merges cascade upwards: a tree whose leaf loads are
  not negative and add up to less than \<open>merge_threshold\<close> collapses into a single leaf
  with that total in one call, whatever its depth; this holds in particular of every grid
  reached by a sequence of operations.
\<close>

theorem sweep_is_bottom_up:
  "(children n = Some cs \<longrightarrow>
      (\<exists>cs'. list_all2 (\<lambda>child child'. merge_repeatedly thr child = Inr child') cs cs'
         \<and> merge_repeatedly thr n
             = (if can_merge (Node (x_min n) (y_min n) (x_max n) (y_max n) (level n)
                               (Some cs') (load n)) thr
                then Inr (Node (x_min n) (y_min n) (x_max n) (y_max n) (level n) None
                            (sum_list (map load cs')))
                else Inr (Node (x_min n) (y_min n) (x_max n) (y_max n) (level n)
                            (Some cs') (load n)))))
   \<and> (list_all (\<lambda>leaf. 0 \<le> load leaf) (get_leaves g)
        \<and> sum_list (map load (get_leaves g)) < merge_threshold g
      \<longrightarrow> periodic_rebalance g
            = Inr (g\<lparr>root := Node (x_min (root g)) (y_min (root g)) (x_max (root g))
                               (y_max (root g)) (level (root g)) None
                               (sum_list (map load (get_leaves g)))\<rparr>))
   \<and> (sum_list (map load (get_leaves (run (FractalGrid_init x0 y0 x1 y1 ml st mt df di) ops))) < mt
      \<longrightarrow> (\<exists>r. periodic_rebalance (run (FractalGrid_init x0 y0 x1 y1 ml st mt df di) ops)
                 = Inr ((run (FractalGrid_init x0 y0 x1 y1 ml st mt df di) ops)\<lparr>root := r\<rparr>)
               \<and> is_leaf r
               \<and> load r = sum_list (map load
                    (get_leaves (run (FractalGrid_init x0 y0 x1 y1 ml st mt df di) ops)))))"
proof (intro conjI impI)
  assume kids: "children n = Some cs"
  let ?cs' = "map (\<lambda>child. projr (merge_repeatedly thr child)) cs"
  have "list_all2 (\<lambda>child child'. merge_repeatedly thr child = Inr child') cs ?cs'"
    by (simp add: list_all2_conv_all_nth merge_repeatedly_returns [symmetric])
  moreover have "merge_repeatedly thr n
      = (if can_merge (Node (x_min n) (y_min n) (x_max n) (y_max n) (level n) (Some ?cs') (load n)) thr
         then Inr (Node (x_min n) (y_min n) (x_max n) (y_max n) (level n) None
                     (sum_list (map load ?cs')))
         else Inr (Node (x_min n) (y_min n) (x_max n) (y_max n) (level n) (Some ?cs') (load n)))"
    by (simp only: merge_repeatedly_internal [OF kids] Let_def set_children_def set_load_def
        Node.sel)
  ultimately show "\<exists>cs'. list_all2 (\<lambda>child child'. merge_repeatedly thr child = Inr child') cs cs'
      \<and> merge_repeatedly thr n
          = (if can_merge (Node (x_min n) (y_min n) (x_max n) (y_max n) (level n)
                            (Some cs') (load n)) thr
             then Inr (Node (x_min n) (y_min n) (x_max n) (y_max n) (level n) None
                         (sum_list (map load cs')))
             else Inr (Node (x_min n) (y_min n) (x_max n) (y_max n) (level n)
                         (Some cs') (load n)))"
    by blast
next
  assume "list_all (\<lambda>leaf. 0 \<le> load leaf) (get_leaves g)
      \<and> sum_list (map load (get_leaves g)) < merge_threshold g"
  then have "merge_repeatedly (merge_threshold g) (root g)
      = Inr (set_load (set_children (root g) None) (sum_list (map load (gather (root g)))))"
    by (intro sweep_collapses) (simp_all add: get_leaves_def)
  then show "periodic_rebalance g
      = Inr (g\<lparr>root := Node (x_min (root g)) (y_min (root g)) (x_max (root g))
              (y_max (root g)) (level (root g)) None (sum_list (map load (get_leaves g)))\<rparr>)"
    by (simp add: periodic_rebalance_def get_leaves_def set_load_def set_children_def)
next
  let ?g = "run (FractalGrid_init x0 y0 x1 y1 ml st mt df di) ops"
  let ?r = "set_load (set_children (root ?g) None) (sum_list (map load (get_leaves ?g)))"
  assume below: "sum_list (map load (get_leaves ?g)) < mt"
  have "list_all load_nonneg (nodes (root (FractalGrid_init x0 y0 x1 y1 ml st mt df di)))"
    by (simp add: init_invariants)
  then have "list_all load_nonneg (nodes (root ?g))" by (rule run_load_nonneg)
  then have "list_all (\<lambda>m. 0 \<le> load m) (gather (root ?g))"
    using gather_subset_nodes [of "root ?g"] by (auto simp: list_all_iff load_nonneg_def)
  moreover from below have "sum_list (map load (gather (root ?g))) < merge_threshold ?g"
    by (simp add: get_leaves_def)
  ultimately have "merge_repeatedly (merge_threshold ?g) (root ?g)
      = Inr (set_load (set_children (root ?g) None) (sum_list (map load (gather (root ?g)))))"
    by (rule sweep_collapses)
  then have "periodic_rebalance ?g = Inr (?g\<lparr>root := ?r\<rparr>)"
    by (simp add: periodic_rebalance_def get_leaves_def)
  moreover have "is_leaf ?r" by simp
  moreover have "load ?r = sum_list (map load (get_leaves ?g))" by simp
  ultimately show "\<exists>r. periodic_rebalance ?g = Inr (?g\<lparr>root := r\<rparr>) \<and> is_leaf r
      \<and> load r = sum_list (map load (get_leaves ?g))"
    by blast
qed

lemma gather_subdivide: "gather (subdivide n) = the (children (subdivide n))"
  by (simp add: gather_internal [OF subdivide_children] gather_leaf subdivide_children)

theorem sweep_is_bottom_up_witness:
  "list_all (\<lambda>leaf. 0 \<le> load leaf) (get_leaves (FractalGrid_default\<lparr>root := two_level\<rparr>))
   \<and> sum_list (map load (get_leaves (FractalGrid_default\<lparr>root := two_level\<rparr>)))
       < merge_threshold (FractalGrid_default\<lparr>root := two_level\<rparr>)
   \<and> length (get_leaves (FractalGrid_default\<lparr>root := two_level\<rparr>)) = 16
   \<and> periodic_rebalance (FractalGrid_default\<lparr>root := two_level\<rparr>)
       = Inr (FractalGrid_default\<lparr>root := Node 0 0 1 1 0 None 1\<rparr>)
   \<and> children two_level = Some (the (children two_level))
   \<and> sum_list (map load (get_leaves (run FractalGrid_default [Set (1 / 2) (1 / 2)]))) < 2
   \<and> (\<exists>r. periodic_rebalance (run FractalGrid_default [Set (1 / 2) (1 / 2)])
            = Inr ((run FractalGrid_default [Set (1 / 2) (1 / 2)])\<lparr>root := r\<rparr>)
          \<and> is_leaf r \<and> load r = 1)
   \<and> (\<exists>cs'. list_all2 (\<lambda>child child'. merge_repeatedly 2 child = Inr child')
            (the (children two_level)) cs')"
proof -
  let ?g = "FractalGrid_default\<lparr>root := two_level\<rparr>"
  have leaves: "get_leaves ?g = concat (map (\<lambda>c. the (children c)) (the (children two_level)))"
    by (simp add: get_leaves_def two_level_def gather_internal gather_subdivide)
  have nonneg: "list_all (\<lambda>leaf. 0 \<le> load leaf) (get_leaves ?g)"
    unfolding leaves by (simp add: two_level_def subdivide_children)
  have total: "sum_list (map load (get_leaves ?g)) = 1"
    unfolding leaves by (simp add: two_level_def subdivide_children)
  have len: "length (get_leaves ?g) = 16"
    unfolding leaves by (simp add: two_level_def subdivide_children)
  have mt: "merge_threshold ?g = 2" by (simp add: FractalGrid_default_def)
  from total mt have below: "sum_list (map load (get_leaves ?g)) < merge_threshold ?g" by simp
  from sweep_is_bottom_up [where g = ?g] nonneg below
  have "periodic_rebalance ?g
      = Inr (?g\<lparr>root := Node (x_min (root ?g)) (y_min (root ?g)) (x_max (root ?g))
              (y_max (root ?g)) (level (root ?g)) None (sum_list (map load (get_leaves ?g)))\<rparr>)"
    by blast
  then have "periodic_rebalance ?g = Inr (FractalGrid_default\<lparr>root := Node 0 0 1 1 0 None 1\<rparr>)"
    by (simp add: total) (simp add: two_level_def)
  moreover have kids: "children two_level = Some (the (children two_level))"
    by (simp add: two_level_def)
  moreover have one: "get_leaves (run FractalGrid_default [Set (1 / 2) (1 / 2)])
      = [Node 0 0 1 1 0 None 1]"
    by (simp add: FractalGrid_default_def exec_Set_leaf_root valid_xy_def rebalance_def
        add_load_def get_leaves_def gather_leaf set_load_def Node_init_def)
  then have small: "sum_list (map load (get_leaves (run FractalGrid_default [Set (1 / 2) (1 / 2)]))) < 2"
    by simp
  moreover from sweep_is_bottom_up [where ?x0.0 = 0 and ?y0.0 = 0 and ?x1.0 = 1 and ?y1.0 = 1
      and ml = 6 and st = 5 and mt = 2 and df = "9 / 10" and di = 1
      and ops = "[Set (1 / 2) (1 / 2)]"] small
  have "\<exists>r. periodic_rebalance (run FractalGrid_default [Set (1 / 2) (1 / 2)])
        = Inr ((run FractalGrid_default [Set (1 / 2) (1 / 2)])\<lparr>root := r\<rparr>)
      \<and> is_leaf r
      \<and> load r = sum_list (map load (get_leaves (run FractalGrid_default [Set (1 / 2) (1 / 2)])))"
    unfolding FractalGrid_default_def by blast
  then have "\<exists>r. periodic_rebalance (run FractalGrid_default [Set (1 / 2) (1 / 2)])
        = Inr ((run FractalGrid_default [Set (1 / 2) (1 / 2)])\<lparr>root := r\<rparr>)
      \<and> is_leaf r \<and> load r = 1"
    unfolding one by simp
  moreover from sweep_is_bottom_up [where n = two_level and thr = 2] kids
  have "\<exists>cs'. list_all2 (\<lambda>child child'. merge_repeatedly 2 child = Inr child')
      (the (children two_level)) cs'"
    by blast
  ultimately show ?thesis using nonneg below len by blast
qed

subsection \<open>Decay\<close>

lemma nodes_decay:
  "map (\<lambda>m. (cell m, is_leaf m, load m)) (nodes (decay f n))
     = map (\<lambda>m. (cell m, is_leaf m, if is_leaf m then decayed f (load m) else load m)) (nodes n)"
proof (induction n rule: nodes.induct)
  case (1 a b c d l ld)
  show ?case by (simp add: decay_leaf nodes.simps is_leaf_def set_load_def cell_def)
next
  case (2 a b c d l cs ld)
  let ?n = "Node a b c d l (Some cs) ld"
  have kids: "children ?n = Some cs" by simp
  let ?view = "\<lambda>m. (cell m, is_leaf m, load m)"
  let ?after = "\<lambda>m. (cell m, is_leaf m, if is_leaf m then decayed f (load m) else load m)"
  have "map ?view (nodes (decay f ?n))
      = ?view (set_children ?n (Some (map (decay f) cs)))
        # concat (map (map ?view \<circ> (nodes \<circ> decay f)) cs)"
    by (simp add: decay_internal [OF kids] set_children_def nodes.simps map_concat)
  also have "map (map ?view \<circ> (nodes \<circ> decay f)) cs = map (map ?after \<circ> nodes) cs"
    using "2.IH" by simp
  also have "?view (set_children ?n (Some (map (decay f) cs))) = ?after ?n"
    by (simp add: is_leaf_def)
  also have "?after ?n # concat (map (map ?after \<circ> nodes) cs) = map ?after (nodes ?n)"
    by (simp add: nodes.simps map_concat)
  finally show ?case .
qed

lemma gather_decay:
  "gather (decay f n) = map (\<lambda>leaf. set_load leaf (decayed f (load leaf))) (gather n)"
proof (induction n rule: nodes.induct)
  case (1 a b c d l ld)
  show ?case by (simp add: decay_leaf gather_leaf)
next
  case (2 a b c d l cs ld)
  let ?n = "Node a b c d l (Some cs) ld"
  have kids: "children ?n = Some cs" by simp
  have "gather (decay f ?n) = concat (map (gather \<circ> decay f) cs)"
    by (simp add: decay_internal [OF kids] gather_internal)
  also have "map (gather \<circ> decay f) cs
      = map (map (\<lambda>leaf. set_load leaf (decayed f (load leaf))) \<circ> gather) cs"
    using "2.IH" by simp
  also have "concat (map (map (\<lambda>leaf. set_load leaf (decayed f (load leaf))) \<circ> gather) cs)
      = map (\<lambda>leaf. set_load leaf (decayed f (load leaf))) (gather ?n)"
    by (simp add: gather_internal [OF kids] map_concat)
  finally show ?case .
qed

lemma decay_iter_leaf:
  "children n = None \<Longrightarrow> (decay f ^^ k) n = set_load n ((decayed f ^^ k) (load n))"
proof (induction k)
  case 0
  then show ?case by (cases n) (simp add: set_load_def)
next
  case (Suc k)
  then show ?case by (simp add: decay_leaf set_load_def)
qed

lemma decay_load_iter: "root (((\<lambda>h. decay_load h f) ^^ k) g) = (decay f ^^ k) (root g)"
  by (induction k) (simp_all add: decay_load_def)

lemma pow_131: "(1 / 1000000 :: real) \<le> (9 / 10) ^ 131"
  by (simp add: power_divide)

lemma pow_132: "(9 / 10 :: real) ^ 132 < 1 / 1000000"
  by (simp add: power_divide)

lemma decayed_iter: "(decayed (9 / 10) ^^ k) 1 = (if k \<le> 131 then (9 / 10) ^ k else 0)"
proof (induction k)
  case 0
  show ?case by simp
next
  case (Suc k)
  show ?case
  proof (cases "Suc k \<le> 131")
    case True
    then have "(9 / 10 :: real) ^ 131 \<le> (9 / 10) ^ Suc k" by (intro power_decreasing) simp_all
    with pow_131 have "\<not> (9 / 10 :: real) ^ Suc k < 1 / 1000000" by linarith
    with True Suc.IH show ?thesis by (simp add: decayed_def Let_def mult.commute)
  next
    case False
    show ?thesis
    proof (cases "k = 131")
      case True
      have step: "decayed (9 / 10) ((9 / 10) ^ 131) = 0"
        by (simp add: decayed_def Let_def power_divide)
      from Suc.IH True have ih: "(decayed (9 / 10) ^^ k) 1 = (9 / 10) ^ 131" by simp
      have "(decayed (9 / 10) ^^ Suc k) 1 = decayed (9 / 10) ((decayed (9 / 10) ^^ k) 1)"
        by simp
      also have "\<dots> = decayed (9 / 10) ((9 / 10) ^ 131)"
        by (simp only: ih)
      also note step
      finally show ?thesis using True by simp
    next
      case False
      with \<open>\<not> Suc k \<le> 131\<close> have "\<not> k \<le> 131" by simp
      with Suc.IH show ?thesis by (simp add: decayed_def Let_def)
    qed
  qed
qed

text \<open>
  Claim C10. \<^verbatim>\<open>decay_load\<close> keeps the shape of the tree and the loads of internal nodes,
  and replaces the load of every leaf by its product with the factor, or by 0 when that
  product is below \<open>10\<^sup>-\<^sup>6\<close>; afterwards no leaf load is negative, whatever the factor.
  Starting from a leaf root of load 1 and decaying repeatedly with factor 0.9, the load
  after \<open>k \<le> 131\<close> steps is \<open>0.9\<^sup>k\<close>, which is at least \<open>10\<^sup>-\<^sup>6\<close>, every step up to and
  including the 132nd makes the load strictly smaller, and from the 132nd step on the
  load is 0.
\<close>

theorem decay_load_clamps:
  "map (\<lambda>m. (cell m, is_leaf m, load m)) (nodes (root (decay_load g f)))
     = map (\<lambda>m. (cell m, is_leaf m,
              if is_leaf m then (if load m * f < 1 / 1000000 then 0 else load m * f)
              else load m)) (nodes (root g))
   \<and> list_all (\<lambda>leaf. 0 \<le> load leaf) (get_leaves (decay_load g f))
   \<and> (is_leaf (root g) \<and> load (root g) = 1 \<longrightarrow>
        (\<forall>k \<le> 131.
            load (root (((\<lambda>h. decay_load h (9 / 10)) ^^ k) g)) = (9 / 10) ^ k
          \<and> 1 / 1000000 \<le> load (root (((\<lambda>h. decay_load h (9 / 10)) ^^ k) g))
          \<and> load (root (((\<lambda>h. decay_load h (9 / 10)) ^^ Suc k) g))
              < load (root (((\<lambda>h. decay_load h (9 / 10)) ^^ k) g)))
        \<and> (\<forall>k \<ge> 132. load (root (((\<lambda>h. decay_load h (9 / 10)) ^^ k) g)) = 0))"
proof (intro conjI impI)
  show "map (\<lambda>m. (cell m, is_leaf m, load m)) (nodes (root (decay_load g f)))
     = map (\<lambda>m. (cell m, is_leaf m,
              if is_leaf m then (if load m * f < 1 / 1000000 then 0 else load m * f)
              else load m)) (nodes (root g))"
    by (simp add: decay_load_def nodes_decay decayed_def Let_def)
next
  show "list_all (\<lambda>leaf. 0 \<le> load leaf) (get_leaves (decay_load g f))"
    by (simp add: get_leaves_def decay_load_def gather_decay list_all_iff decayed_nonneg)
next
  assume start: "is_leaf (root g) \<and> load (root g) = 1"
  have at: "load (root (((\<lambda>h. decay_load h (9 / 10)) ^^ k) g))
      = (if k \<le> 131 then (9 / 10) ^ k else 0)" for k
    using start by (simp add: decay_load_iter decay_iter_leaf is_leaf_def decayed_iter)
  show "\<forall>k \<le> 131.
            load (root (((\<lambda>h. decay_load h (9 / 10)) ^^ k) g)) = (9 / 10) ^ k
          \<and> 1 / 1000000 \<le> load (root (((\<lambda>h. decay_load h (9 / 10)) ^^ k) g))
          \<and> load (root (((\<lambda>h. decay_load h (9 / 10)) ^^ Suc k) g))
              < load (root (((\<lambda>h. decay_load h (9 / 10)) ^^ k) g))"
  proof (intro allI impI)
    fix k :: nat assume k: "k \<le> 131"
    then have "(9 / 10 :: real) ^ 131 \<le> (9 / 10) ^ k" by (intro power_decreasing) simp_all
    with pow_131 have big: "(1 / 1000000 :: real) \<le> (9 / 10) ^ k" by linarith
    have now: "load (root (((\<lambda>h. decay_load h (9 / 10)) ^^ k) g)) = (9 / 10) ^ k"
      using k by (simp only: at if_True)
    have "(if Suc k \<le> 131 then (9 / 10 :: real) ^ Suc k else 0) < (9 / 10) ^ k"
      by simp
    then have next_less: "load (root (((\<lambda>h. decay_load h (9 / 10)) ^^ Suc k) g)) < (9 / 10) ^ k"
      by (simp only: at)
    from now big next_less
    show "load (root (((\<lambda>h. decay_load h (9 / 10)) ^^ k) g)) = (9 / 10) ^ k
          \<and> 1 / 1000000 \<le> load (root (((\<lambda>h. decay_load h (9 / 10)) ^^ k) g))
          \<and> load (root (((\<lambda>h. decay_load h (9 / 10)) ^^ Suc k) g))
              < load (root (((\<lambda>h. decay_load h (9 / 10)) ^^ k) g))"
      by simp
  qed
next
  assume start: "is_leaf (root g) \<and> load (root g) = 1"
  have at: "load (root (((\<lambda>h. decay_load h (9 / 10)) ^^ k) g))
      = (if k \<le> 131 then (9 / 10) ^ k else 0)" for k
    using start by (simp add: decay_load_iter decay_iter_leaf is_leaf_def decayed_iter)
  show "\<forall>k \<ge> 132. load (root (((\<lambda>h. decay_load h (9 / 10)) ^^ k) g)) = 0"
    by (simp add: at)
qed

theorem decay_load_clamps_witness:
  "is_leaf (root (FractalGrid_default\<lparr>root := Node 0 0 1 1 0 None 1\<rparr>))
   \<and> load (root (FractalGrid_default\<lparr>root := Node 0 0 1 1 0 None 1\<rparr>)) = 1
   \<and> (100::nat) \<le> 131 \<and> (132::nat) \<le> 132
   \<and> load (root (((\<lambda>h. decay_load h (9 / 10)) ^^ 100)
          (FractalGrid_default\<lparr>root := Node 0 0 1 1 0 None 1\<rparr>))) = (9 / 10) ^ 100
   \<and> load (root (((\<lambda>h. decay_load h (9 / 10)) ^^ 132)
          (FractalGrid_default\<lparr>root := Node 0 0 1 1 0 None 1\<rparr>))) = 0"
proof -
  let ?g = "FractalGrid_default\<lparr>root := Node 0 0 1 1 0 None 1\<rparr>"
  have start: "is_leaf (root ?g) \<and> load (root ?g) = 1" by (simp add: is_leaf_def)
  have k1: "(100::nat) \<le> 131" and k2: "(132::nat) \<le> 132" by simp_all
  note inst = decay_load_clamps [where g = ?g]
  from inst start k1
  have a: "load (root (((\<lambda>h. decay_load h (9 / 10)) ^^ 100) ?g)) = (9 / 10) ^ 100"
    by blast
  from inst start k2
  have b: "load (root (((\<lambda>h. decay_load h (9 / 10)) ^^ 132) ?g)) = 0"
    by blast
  from start k1 k2 a b show ?thesis by blast
qed


section \<open>Properties of the store embedding\<close>

subsection \<open>Bounds and level are never reassigned\<close>

text \<open>
  No method assigns to the bounds or the level of an existing object, and objects are
  never removed from the store: every operation takes a store to one related to it by
  \<open>same_cells\<close>.
\<close>

lemma same_cells_refl [simp]: "same_cells s s"
  by (simp add: same_cells_def)

lemma same_cells_trans [trans]: "same_cells s s' \<Longrightarrow> same_cells s' s'' \<Longrightarrow> same_cells s s''"
proof -
  assume a: "same_cells s s'" and b: "same_cells s' s''"
  then have len: "length s \<le> length s'" "length s' \<le> length s''"
    by (simp_all add: same_cells_def)
  from b have "map cell_obj (take (length s') s'') = map cell_obj s'" by (simp add: same_cells_def)
  then have "take (length s) (map cell_obj (take (length s') s'')) = take (length s) (map cell_obj s')"
    by simp
  with len have "map cell_obj (take (length s) s'') = map cell_obj (take (length s) s')"
    by (simp add: take_map [symmetric] min_def)
  with a len show ?thesis by (simp add: same_cells_def)
qed

lemma same_cells_append [simp]: "same_cells s (s @ t)"
  by (simp add: same_cells_def)

lemma same_cells_update:
  "r < length s \<Longrightarrow> cell_obj n = cell_obj (s ! r) \<Longrightarrow> same_cells s (s[r := n])"
  by (simp add: same_cells_def map_update list_update_same_conv)

lemma same_cells_nth:
  "same_cells s s' \<Longrightarrow> r < length s \<Longrightarrow> r < length s' \<and> cell_obj (s' ! r) = cell_obj (s ! r)"
proof -
  assume a: "same_cells s s'" and r: "r < length s"
  then have len: "length s \<le> length s'" and eq: "map cell_obj (take (length s) s') = map cell_obj s"
    by (simp_all add: same_cells_def)
  from eq have "map cell_obj (take (length s) s') ! r = map cell_obj s ! r" by simp
  with len r show ?thesis by simp
qed

lemma deref_Some: "deref s r = Some n \<longleftrightarrow> r < length s \<and> n = s ! r"
  by (auto simp: deref_def)

lemma set_load_obj_frame: "set_load_obj s r v = Some s' \<Longrightarrow> same_cells s s'"
  by (auto simp: set_load_obj_def deref_Some bind_eq_Some_conv cell_obj_def
      intro!: same_cells_update)

lemma set_children_obj_frame: "set_children_obj s r cs = Some s' \<Longrightarrow> same_cells s s'"
  by (auto simp: set_children_obj_def deref_Some bind_eq_Some_conv cell_obj_def
      intro!: same_cells_update)

lemma for_each_frame:
  assumes step: "\<And>s c s'. f s c = Some s' \<Longrightarrow> same_cells s s'"
  shows "for_each f s cs = Some s' \<Longrightarrow> same_cells s s'"
proof (induction cs arbitrary: s)
  case Nil
  then show ?case by simp
next
  case (Cons c cs)
  from Cons.prems obtain s1 where a: "f s c = Some s1" and b: "for_each f s1 cs = Some s'"
    by (auto simp: bind_eq_Some_conv)
  from a have "same_cells s s1" by (rule step)
  moreover from b have "same_cells s1 s'" by (rule Cons.IH)
  ultimately show ?case by (rule same_cells_trans)
qed

lemma Node_obj_frame: "Node_obj s x0 y0 x1 y1 l p = (c, s') \<Longrightarrow> same_cells s s'"
  by (auto simp: Node_obj_def)

lemma subdivide_obj_frame:
  assumes "subdivide_obj s r = Some s'"
  shows "same_cells s s'"
proof -
  from assms obtain n where n: "deref s r = Some n" 
    by (auto simp: subdivide_obj_def bind_eq_Some_conv)
  let ?mx = "(obj_x_min n + obj_x_max n) / 2" and ?my = "(obj_y_min n + obj_y_max n) / 2"
  obtain c0 s0 where a0: "Node_obj s (obj_x_min n) (obj_y_min n) ?mx ?my (obj_level n + 1) (Some r) = (c0, s0)"
    by (cases "Node_obj s (obj_x_min n) (obj_y_min n) ?mx ?my (obj_level n + 1) (Some r)")
  obtain c1 s1 where a1: "Node_obj s0 ?mx (obj_y_min n) (obj_x_max n) ?my (obj_level n + 1) (Some r) = (c1, s1)"
    by (cases "Node_obj s0 ?mx (obj_y_min n) (obj_x_max n) ?my (obj_level n + 1) (Some r)")
  obtain c2 s2 where a2: "Node_obj s1 (obj_x_min n) ?my ?mx (obj_y_max n) (obj_level n + 1) (Some r) = (c2, s2)"
    by (cases "Node_obj s1 (obj_x_min n) ?my ?mx (obj_y_max n) (obj_level n + 1) (Some r)")
  obtain c3 s3 where a3: "Node_obj s2 ?mx ?my (obj_x_max n) (obj_y_max n) (obj_level n + 1) (Some r) = (c3, s3)"
    by (cases "Node_obj s2 ?mx ?my (obj_x_max n) (obj_y_max n) (obj_level n + 1) (Some r)")
  from assms n a0 a1 a2 a3 obtain s4 s5 where
    b4: "set_children_obj s3 r (Some [c0, c1, c2, c3]) = Some s4" and
    b5: "for_each (\<lambda>s child. set_load_obj s child (obj_load n / 4)) s4 [c0, c1, c2, c3] = Some s5" and
    b6: "set_load_obj s5 r 0 = Some s'"
    by (auto simp: subdivide_obj_def Let_def bind_eq_Some_conv)
  have "same_cells s s0" using a0 by (rule Node_obj_frame)
  also have "same_cells s0 s1" using a1 by (rule Node_obj_frame)
  also have "same_cells s1 s2" using a2 by (rule Node_obj_frame)
  also have "same_cells s2 s3" using a3 by (rule Node_obj_frame)
  also have "same_cells s3 s4" using b4 by (rule set_children_obj_frame)
  also have "same_cells s4 s5" using b5 by (rule for_each_frame [rotated]) (rule set_load_obj_frame)
  also have "same_cells s5 s'" using b6 by (rule set_load_obj_frame)
  finally show ?thesis .
qed

lemma merge_obj_frame: "merge_obj s r = Some (Inr s') \<Longrightarrow> same_cells s s'"
  by (auto simp: merge_obj_def deref_Some bind_eq_Some_conv cell_obj_def
      split: option.splits intro!: same_cells_update)

lemma sweep_children_frame:
  assumes step: "\<And>s c s'. f s c = Some (Inr s') \<Longrightarrow> same_cells s s'"
  shows "sweep_children f s cs = Some (Inr s') \<Longrightarrow> same_cells s s'"
proof (induction cs arbitrary: s)
  case Nil
  then show ?case by simp
next
  case (Cons c cs)
  from Cons.prems obtain s1 where a: "f s c = Some (Inr s1)"
    and b: "sweep_children f s1 cs = Some (Inr s')"
    by (auto split: option.splits sum.splits)
  from a have "same_cells s s1" by (rule step)
  also from b have "same_cells s1 s'" by (rule Cons.IH)
  finally show ?case .
qed

lemma merge_repeatedly_obj_frame:
  "merge_repeatedly_obj fuel mt s node = Some (Inr s') \<Longrightarrow> same_cells s s'"
proof (induction fuel arbitrary: s node s')
  case 0
  then show ?case by simp
next
  case (Suc fuel)
  from Suc.prems obtain n where n: "deref s node = Some n"
    by (auto simp: bind_eq_Some_conv)
  show ?case
  proof (cases "obj_children n")
    case None
    with Suc.prems n show ?thesis by simp
  next
    case (Some cs)
    with Suc.prems n obtain s1 where
      a: "sweep_children (merge_repeatedly_obj fuel mt) s cs = Some (Inr s1)" and
      b: "(do { can \<leftarrow> can_merge_obj s1 node mt;
               if can then merge_obj s1 node else Some (Inr s1) }) = Some (Inr s')"
      by (auto split: option.splits sum.splits)
    from a have first: "same_cells s s1"
      by (rule sweep_children_frame [rotated]) (rule Suc.IH)
    from b obtain can where "can_merge_obj s1 node mt = Some can"
      and c: "(if can then merge_obj s1 node else Some (Inr s1)) = Some (Inr s')"
      by (auto simp: bind_eq_Some_conv)
    have "same_cells s1 s'"
    proof (cases can)
      case True
      with c show ?thesis by (simp add: merge_obj_frame)
    next
      case False
      with c show ?thesis by simp
    qed
    with first show ?thesis by (rule same_cells_trans)
  qed
qed

lemma decay_obj_frame: "decay_obj fuel f s node = Some s' \<Longrightarrow> same_cells s s'"
proof (induction fuel arbitrary: s node s')
  case 0
  then show ?case by simp
next
  case (Suc fuel)
  from Suc.prems obtain n where n: "deref s node = Some n"
    by (auto simp: bind_eq_Some_conv)
  show ?case
  proof (cases "obj_children n")
    case None
    with Suc.prems n show ?thesis by (simp add: set_load_obj_frame)
  next
    case (Some cs)
    with Suc.prems n have "for_each (decay_obj fuel f) s cs = Some s'" by simp
    then show ?thesis by (rule for_each_frame [rotated]) (rule Suc.IH)
  qed
qed

lemma rebalance_obj_frame: "rebalance_obj g s node = Some s' \<Longrightarrow> same_cells s s'"
  by (auto simp: rebalance_obj_def bind_eq_Some_conv subdivide_obj_frame split: if_splits)

lemma get_obj_frame: "get_obj fuel g x y = Some (res, g') \<Longrightarrow> same_cells (heap g) (heap g')"
  by (auto simp: get_obj_def bind_eq_Some_conv set_load_obj_frame split: sum.splits)

lemma set_obj_frame: "set_obj fuel g x y = Some (res, g') \<Longrightarrow> same_cells (heap g) (heap g')"
proof (cases "validate_coord x")
  case (Inl e)
  assume "set_obj fuel g x y = Some (res, g')"
  with Inl show ?thesis by (simp add: set_obj_def)
next
  case x: (Inr x')
  assume ret: "set_obj fuel g x y = Some (res, g')"
  show ?thesis
  proof (cases "validate_coord y")
    case (Inl e)
    with x ret show ?thesis by (simp add: set_obj_def)
  next
    case (Inr y')
    with x ret have "\<exists>leaf v s s'. set_load_obj (heap g) leaf v = Some s
        \<and> rebalance_obj g s leaf = Some s' \<and> heap g' = s'"
      by (fastforce simp: set_obj_def bind_eq_Some_conv)
    then obtain leaf v s s' where
      a: "set_load_obj (heap g) leaf v = Some s" and
      b: "rebalance_obj g s leaf = Some s'" and c: "heap g' = s'"
      by blast
    from a have "same_cells (heap g) s" by (rule set_load_obj_frame)
    also from b have "same_cells s s'" by (rule rebalance_obj_frame)
    finally show ?thesis using c by simp
  qed
qed

lemma decay_load_obj_frame:
  "decay_load_obj fuel g f = Some g' \<Longrightarrow> same_cells (heap g) (heap g')"
  by (auto simp: decay_load_obj_def bind_eq_Some_conv decay_obj_frame)

lemma periodic_rebalance_obj_frame:
  "periodic_rebalance_obj fuel g = Some (Inr g') \<Longrightarrow> same_cells (heap g) (heap g')"
  by (auto simp: periodic_rebalance_obj_def merge_repeatedly_obj_frame
      split: option.splits sum.splits)

subsection \<open>The returned references\<close>

text \<open>
  The addresses returned by \<open>gather_obj\<close> are leaves, the node found by \<open>find_leaf_obj\<close>
  is among them when it is a leaf, and \<open>get_obj\<close> writes the incremented load to the
  object at that address.
\<close>

lemma those_eq_Some: "those xs = Some ys \<longleftrightarrow> xs = map Some ys"
proof (induction xs arbitrary: ys)
  case Nil
  show ?case by auto
next
  case (Cons x xs)
  show ?case
  proof (cases x)
    case None
    then show ?thesis by auto
  next
    case (Some v)
    show ?thesis
    proof (cases "those xs")
      case None
      with Some Cons.IH show ?thesis by (cases ys) auto
    next
      case inner: (Some vs)
      with Some Cons.IH show ?thesis by (cases ys) auto
    qed
  qed
qed

lemma is_leaf_obj_Some:
  "is_leaf_obj s r = Some b \<longleftrightarrow> (\<exists>n. deref s r = Some n \<and> b = (obj_children n = None))"
  by (auto simp: is_leaf_obj_def bind_eq_Some_conv)

lemma gather_obj_leaves:
  "gather_obj fuel s node = Some rs \<Longrightarrow> a \<in> set rs \<Longrightarrow> is_leaf_obj s a = Some True"
proof (induction fuel arbitrary: node rs)
  case 0
  then show ?case by simp
next
  case (Suc fuel)
  from Suc.prems(1) obtain n where n: "deref s node = Some n"
    by (auto simp: bind_eq_Some_conv)
  show ?case
  proof (cases "obj_children n")
    case None
    with Suc.prems n show ?thesis by (auto simp: is_leaf_obj_Some)
  next
    case (Some cs)
    with Suc.prems(1) n obtain rss where rss: "those (map (gather_obj fuel s) cs) = Some rss"
      and rs: "rs = concat rss"
      by auto
    from rss have all: "map (gather_obj fuel s) cs = map Some rss" by (simp add: those_eq_Some)
    from Suc.prems(2) rs obtain xs where "xs \<in> set rss" and axs: "a \<in> set xs" by auto
    then obtain i where i: "i < length rss" and "rss ! i = xs" by (auto simp: in_set_conv_nth)
    with axs have a: "a \<in> set (rss ! i)" by simp
    from all have "length cs = length rss" by (metis length_map)
    with all i have "gather_obj fuel s (cs ! i) = Some (rss ! i)"
      by (metis nth_map)
    then show ?thesis using a by (rule Suc.IH)
  qed
qed

lemma first_containing_mem: "first_containing s cs x y = Some (Some child) \<Longrightarrow> child \<in> set cs"
  by (induction cs) (auto simp: bind_eq_Some_conv split: if_splits)

lemma find_leaf_obj_in_gather:
  "find_leaf_obj fuel s node x y = Some a \<Longrightarrow> is_leaf_obj s a = Some True \<Longrightarrow>
   gather_obj fuel' s node = Some rs \<Longrightarrow> a \<in> set rs"
proof (induction fuel arbitrary: node fuel' rs)
  case 0
  then show ?case by simp
next
  case (Suc fuel)
  from Suc.prems(1) obtain n where n: "deref s node = Some n"
    by (auto simp: bind_eq_Some_conv)
  from Suc.prems(3) obtain k where k: "fuel' = Suc k" by (cases fuel') auto
  show ?case
  proof (cases "obj_children n")
    case None
    with Suc.prems n k show ?thesis by auto
  next
    case (Some cs)
    with Suc.prems(1) n obtain found where found: "first_containing s cs x y = Some found"
      and rest: "(case found of None \<Rightarrow> Some node | Some child \<Rightarrow> find_leaf_obj fuel s child x y)
          = Some a"
      by (auto simp: bind_eq_Some_conv)
    show ?thesis
    proof (cases found)
      case None
      with rest have "a = node" by simp
      with Suc.prems(2) n Some show ?thesis by (simp add: is_leaf_obj_Some)
    next
      case child: (Some child)
      with rest have down: "find_leaf_obj fuel s child x y = Some a" by simp
      from found child have "child \<in> set cs" by (simp add: first_containing_mem)
      then obtain i where i: "i < length cs" and ci: "cs ! i = child"
        by (auto simp: in_set_conv_nth)
      from Suc.prems(3) n Some k obtain rss where
        rss: "those (map (gather_obj k s) cs) = Some rss" and rs: "rs = concat rss"
        by auto
      from rss have all: "map (gather_obj k s) cs = map Some rss" by (simp add: those_eq_Some)
      then have len: "length cs = length rss" by (metis length_map)
      with all i have "gather_obj k s (cs ! i) = Some (rss ! i)" by (metis nth_map)
      with ci have "gather_obj k s child = Some (rss ! i)" by simp
      with down Suc.prems(2) have "a \<in> set (rss ! i)" by (rule Suc.IH)
      with i len rs show ?thesis by auto
    qed
  qed
qed

lemma validate_coord_Inr: "validate_coord x = Inr x' \<Longrightarrow> x' = x \<and> 0 \<le> x \<and> x < 1"
  by (auto simp: validate_coord_def split: if_splits)

lemma get_obj_live:
  assumes "get_obj fuel g x y = Some (Inr v, g')"
  shows "\<exists>a n. find_leaf_obj fuel (heap g) (root_ref g) x y = Some a
      \<and> deref (heap g) a = Some n
      \<and> deref (heap g') a = Some (n\<lparr>obj_load := obj_load n + 1\<rparr>)
      \<and> v = obj_load n + 1"
proof -
  from assms obtain x' where x: "validate_coord x = Inr x'"
    by (cases "validate_coord x") (auto simp: get_obj_def)
  from assms x obtain y' where y: "validate_coord y = Inr y'"
    by (cases "validate_coord y") (auto simp: get_obj_def)
  from x y have same: "x' = x" "y' = y" by (simp_all add: validate_coord_Inr)
  from assms x y same show ?thesis
    by (fastforce simp: get_obj_def bind_eq_Some_conv set_load_obj_def deref_Some)
qed

subsection \<open>Agreement with the functional embedding\<close>

text \<open>
  When the objects below an address form the tree \<open>t\<close> and the fuel exceeds the height
  of \<open>t\<close>, the traversals return, and \<open>gather_obj\<close> returns the addresses of the leaves
  of \<open>t\<close> in the order of \<open>gather\<close>.
\<close>

lemma gather_children:
  "list_all2 (\<lambda>r t. \<exists>rs. gather_obj k s r = Some rs
       \<and> map (read_obj s) rs = map (\<lambda>n. Some (cell n, load n)) (gather t)) refs ts \<Longrightarrow>
   \<exists>rss. those (map (gather_obj k s) refs) = Some rss
     \<and> map (read_obj s) (concat rss) = map (\<lambda>n. Some (cell n, load n)) (concat (map gather ts))"
proof (induction refs ts rule: list_all2_induct)
  case Nil
  show ?case by simp
next
  case (Cons r refs t ts)
  from Cons.hyps(1) obtain rs where rs: "gather_obj k s r = Some rs"
    and view: "map (read_obj s) rs = map (\<lambda>n. Some (cell n, load n)) (gather t)"
    by blast
  from Cons.IH obtain rss where rss: "those (map (gather_obj k s) refs) = Some rss"
    and views: "map (read_obj s) (concat rss)
        = map (\<lambda>n. Some (cell n, load n)) (concat (map gather ts))"
    by blast
  from rs rss have "those (map (gather_obj k s) (r # refs)) = Some (rs # rss)" by simp
  moreover from view views have "map (read_obj s) (concat (rs # rss))
      = map (\<lambda>n. Some (cell n, load n)) (concat (map gather (t # ts)))"
    by simp
  ultimately show ?case by blast
qed

lemma height_child: "t \<in> set ts \<Longrightarrow> height t \<le> Max (insert 0 (height ` set ts))"
  by (rule Max_ge) auto

lemma gather_obj_repr:
  "repr s r t \<Longrightarrow> height t < fuel \<Longrightarrow>
   \<exists>rs. gather_obj fuel s r = Some rs
     \<and> map (read_obj s) rs = map (\<lambda>n. Some (cell n, load n)) (gather t)"
proof (induction t arbitrary: r fuel rule: nodes.induct)
  case (1 a b c d l ld)
  from "1.prems"(2) obtain k where k: "fuel = Suc k" by (cases fuel) auto
  from "1.prems"(1) obtain n where n: "deref s r = Some n"
    and fields: "cell_obj n = (a, b, c, d, l)" "obj_load n = ld" "obj_children n = None"
    by (auto split: option.splits)
  from n fields k have "gather_obj fuel s r = Some [r]" by simp
  moreover from n fields have "map (read_obj s) [r]
      = map (\<lambda>n. Some (cell n, load n)) (gather (Node a b c d l None ld))"
    by (simp add: read_obj_def gather_leaf cell_def)
  ultimately show ?case by blast
next
  case (2 a b c d l ts ld)
  let ?t = "Node a b c d l (Some ts) ld"
  from "2.prems"(2) obtain k where k: "fuel = Suc k" by (cases fuel) auto
  from "2.prems"(1) obtain n refs where n: "deref s r = Some n"
    and kids: "obj_children n = Some refs" and rel: "list_all2 (repr s) refs ts"
    by (auto split: option.splits)
  from "2.prems"(2) k have bound: "Max (insert 0 (height ` set ts)) < k" by simp
  have "list_all2 (\<lambda>r t. \<exists>rs. gather_obj k s r = Some rs
      \<and> map (read_obj s) rs = map (\<lambda>n. Some (cell n, load n)) (gather t)) refs ts"
  proof (rule list_all2_all_nthI)
    from rel show "length refs = length ts" by (rule list_all2_lengthD)
  next
    fix i assume i: "i < length refs"
    with rel have len: "i < length ts" by (simp add: list_all2_lengthD)
    then have mem: "ts ! i \<in> set ts" by simp
    from rel i have "repr s (refs ! i) (ts ! i)" by (rule list_all2_nthD)
    moreover from mem bound have "height (ts ! i) < k"
      using height_child [of "ts ! i" ts] by simp
    ultimately show "\<exists>rs. gather_obj k s (refs ! i) = Some rs
        \<and> map (read_obj s) rs = map (\<lambda>n. Some (cell n, load n)) (gather (ts ! i))"
      using mem by (intro "2.IH")
  qed
  then obtain rss where rss: "those (map (gather_obj k s) refs) = Some rss"
    and views: "map (read_obj s) (concat rss)
        = map (\<lambda>n. Some (cell n, load n)) (concat (map gather ts))"
    using gather_children by blast
  from n kids rss k have "gather_obj fuel s r = Some (concat rss)" by simp
  moreover from views have "map (read_obj s) (concat rss)
      = map (\<lambda>n. Some (cell n, load n)) (gather ?t)"
    by (simp add: gather_internal)
  ultimately show ?case by blast
qed

lemma repr_deref: "repr s r t \<Longrightarrow> \<exists>n. deref s r = Some n"
  by (cases t; cases "children t") (auto split: option.splits)

lemma first_containing_returns:
  "\<forall>c \<in> set cs. \<exists>n. deref s c = Some n \<Longrightarrow> \<exists>found. first_containing s cs x y = Some found"
proof (induction cs)
  case Nil
  show ?case by simp
next
  case (Cons c cs)
  then obtain n where "deref s c = Some n" by auto
  then obtain hit where hit: "contains_obj s c x y = Some hit" by (simp add: contains_obj_def)
  from Cons obtain found where "first_containing s cs x y = Some found" by auto
  with hit show ?case by simp
qed

lemma find_leaf_obj_repr:
  "repr s r t \<Longrightarrow> height t < fuel \<Longrightarrow>
   \<exists>a n. find_leaf_obj fuel s r x y = Some a \<and> deref s a = Some n"
proof (induction t arbitrary: r fuel rule: nodes.induct)
  case (1 a b c d l ld)
  from "1.prems"(2) obtain k where k: "fuel = Suc k" by (cases fuel) auto
  from "1.prems"(1) obtain n where "deref s r = Some n" "obj_children n = None"
    by (auto split: option.splits)
  with k show ?case by simp
next
  case (2 a b c d l ts ld)
  from "2.prems"(2) obtain k where k: "fuel = Suc k" by (cases fuel) auto
  from "2.prems"(1) obtain n refs where n: "deref s r = Some n"
    and kids: "obj_children n = Some refs" and rel: "list_all2 (repr s) refs ts"
    by (auto split: option.splits)
  from "2.prems"(2) k have bound: "Max (insert 0 (height ` set ts)) < k" by simp
  have "\<forall>c \<in> set refs. \<exists>m. deref s c = Some m"
  proof
    fix c assume "c \<in> set refs"
    then obtain i where i: "i < length refs" and c: "refs ! i = c"
      by (auto simp: in_set_conv_nth)
    from rel i have "repr s (refs ! i) (ts ! i)" by (rule list_all2_nthD)
    with c show "\<exists>m. deref s c = Some m" by (auto dest: repr_deref)
  qed
  then obtain found where found: "first_containing s refs x y = Some found"
    using first_containing_returns by blast
  show ?case
  proof (cases found)
    case None
    with n kids found k show ?thesis by simp
  next
    case (Some child)
    with found have "child \<in> set refs" by (simp add: first_containing_mem)
    then obtain i where i: "i < length refs" and c: "refs ! i = child"
      by (auto simp: in_set_conv_nth)
    from rel i have len: "i < length ts" by (simp add: list_all2_lengthD)
    then have mem: "ts ! i \<in> set ts" by simp
    from rel i c have "repr s child (ts ! i)" by (auto dest: list_all2_nthD)
    moreover from mem bound have "height (ts ! i) < k"
      using height_child [of "ts ! i" ts] by simp
    ultimately have "\<exists>a n. find_leaf_obj k s child x y = Some a \<and> deref s a = Some n"
      using mem by (intro "2.IH")
    with n kids found Some k show ?thesis by simp
  qed
qed

lemma get_obj_returns:
  assumes "repr (heap g) (root_ref g) t" and "height t < fuel"
    and "0 \<le> x" "x < 1" "0 \<le> y" "y < 1"
  shows "\<exists>v g'. get_obj fuel g x y = Some (Inr v, g')"
proof -
  from assms(1,2) obtain a n where "find_leaf_obj fuel (heap g) (root_ref g) x y = Some a"
    and "deref (heap g) a = Some n"
    using find_leaf_obj_repr by blast
  with assms(3-6) show ?thesis
    by (simp add: get_obj_def set_load_obj_def deref_def split: if_splits)
qed

subsection \<open>Sequences of mutations\<close>

text \<open>
  The sweep calls \<^verbatim>\<open>merge\<close> only on a node for which \<^verbatim>\<open>can_merge\<close> holds, so it never raises,
  and \<open>mutates\<close> covers every outcome of \<^verbatim>\<open>periodic_rebalance\<close>.
\<close>

lemma can_merge_obj_internal:
  "can_merge_obj s r mt = Some True \<Longrightarrow> \<exists>n cs. deref s r = Some n \<and> obj_children n = Some cs"
  by (auto simp: can_merge_obj_def split: bind_splits option.splits)

lemma merge_obj_no_error:
  "can_merge_obj s r mt = Some True \<Longrightarrow> merge_obj s r \<noteq> Some (Inl e)"
  by (auto simp: can_merge_obj_def merge_obj_def Let_def split: bind_splits option.splits)

lemma sweep_children_no_error:
  "(\<And>s c. c \<in> set cs \<Longrightarrow> f s c \<noteq> Some (Inl e)) \<Longrightarrow> sweep_children f s cs \<noteq> Some (Inl e)"
proof (induction cs arbitrary: s)
  case Nil
  show ?case by simp
next
  case (Cons c cs)
  have "f s c \<noteq> Some (Inl e)" using Cons.prems by simp
  moreover have "sweep_children f s' cs \<noteq> Some (Inl e)" for s'
    using Cons.prems by (intro Cons.IH) simp
  ultimately show ?case by (auto split: option.splits sum.splits)
qed

lemma merge_repeatedly_obj_no_error:
  "merge_repeatedly_obj fuel mt s node \<noteq> Some (Inl e)"
proof (induction fuel arbitrary: s node)
  case 0
  show ?case by simp
next
  case (Suc fuel)
  have sweep: "sweep_children (merge_repeatedly_obj fuel mt) s' cs \<noteq> Some (Inl e)" for s' cs
    by (rule sweep_children_no_error) (rule Suc.IH)
  show ?case
    using sweep merge_obj_no_error
    by (auto split: bind_splits option.splits sum.splits if_splits)
qed

lemma periodic_rebalance_obj_no_error:
  "periodic_rebalance_obj fuel g \<noteq> Some (Inl e)"
  using merge_repeatedly_obj_no_error [of fuel "merge_threshold_obj g" "heap g" "root_ref g" e]
  by (auto simp: periodic_rebalance_obj_def split: option.splits sum.splits)

lemma mutates_frame: "mutates g g' \<Longrightarrow> same_cells (heap g) (heap g')"
  unfolding mutates_def
  by (auto dest: get_obj_frame set_obj_frame decay_load_obj_frame periodic_rebalance_obj_frame)

lemma mutations_frame: "mutates\<^sup>*\<^sup>* g g' \<Longrightarrow> same_cells (heap g) (heap g')"
proof (induction rule: rtranclp_induct)
  case base
  show ?case by simp
next
  case (step g' g'')
  from step.IH have "same_cells (heap g) (heap g')" .
  also from step.hyps(2) have "same_cells (heap g') (heap g'')" by (rule mutates_frame)
  finally show ?case .
qed

lemma same_cells_cell_at:
  "same_cells s s' \<Longrightarrow> deref s a = Some n \<Longrightarrow> cell_at s' a = cell_at s a"
proof -
  assume sc: "same_cells s s'" and n: "deref s a = Some n"
  from n have "a < length s" by (simp add: deref_Some)
  with sc have "a < length s' \<and> cell_obj (s' ! a) = cell_obj (s ! a)" by (rule same_cells_nth)
  with \<open>a < length s\<close> show ?thesis by (simp add: cell_at_def deref_def)
qed

text \<open>
  Claim C1, as amended. \<^verbatim>\<open>get_leaves\<close> returns the leaf objects themselves. When the
  objects below the root form a tree and the fuel exceeds its height, the call returns,
  and what is read through the returned references at that moment is the bounds, level
  and load of the tree's leaves in order. Every returned reference is a leaf at that
  moment. Whatever mutating operations follow, the bounds and level read through a
  returned reference stay the same. The load does not: after a later \<^verbatim>\<open>get(x, y)\<close> the load
  read through the reference of the node that call found is one higher, and that node,
  when it was a leaf, is an element of the snapshot. Such a \<^verbatim>\<open>get\<close> returns for valid
  coordinates under the same condition on the store.
\<close>

theorem get_leaves_live_references:
  "(repr (heap g) (root_ref g) t \<and> height t < fuel \<longrightarrow>
      (\<exists>leaves. get_leaves_obj fuel g = Some leaves
         \<and> map (read_obj (heap g)) leaves = map (\<lambda>n. Some (cell n, load n)) (gather t)))
   \<and> (get_leaves_obj fuel g = Some leaves \<and> a \<in> set leaves \<longrightarrow>
        is_leaf_obj (heap g) a = Some True)
   \<and> (get_leaves_obj fuel g = Some leaves \<and> a \<in> set leaves \<and> mutates\<^sup>*\<^sup>* g g' \<longrightarrow>
        cell_at (heap g') a = cell_at (heap g) a \<and> cell_at (heap g) a \<noteq> None)
   \<and> (get_leaves_obj fuel g = Some leaves \<and> get_obj fuel' g x y = Some (Inr v, g') \<longrightarrow>
        (\<exists>b n. find_leaf_obj fuel' (heap g) (root_ref g) x y = Some b
           \<and> deref (heap g) b = Some n
           \<and> (obj_children n = None \<longrightarrow> b \<in> set leaves)
           \<and> read_obj (heap g') b = Some (cell_obj n, obj_load n + 1)
           \<and> v = obj_load n + 1))
   \<and> (repr (heap g) (root_ref g) t \<and> height t < fuel' \<and> 0 \<le> x \<and> x < 1 \<and> 0 \<le> y \<and> y < 1 \<longrightarrow>
        (\<exists>w h. get_obj fuel' g x y = Some (Inr w, h)))"
proof -
  have returns: "repr (heap g) (root_ref g) t \<and> height t < fuel \<longrightarrow>
      (\<exists>leaves. get_leaves_obj fuel g = Some leaves
         \<and> map (read_obj (heap g)) leaves = map (\<lambda>n. Some (cell n, load n)) (gather t))"
  proof
    assume "repr (heap g) (root_ref g) t \<and> height t < fuel"
    then show "\<exists>leaves. get_leaves_obj fuel g = Some leaves
        \<and> map (read_obj (heap g)) leaves = map (\<lambda>n. Some (cell n, load n)) (gather t)"
      unfolding get_leaves_obj_def by (intro gather_obj_repr) simp_all
  qed
  have leaves: "get_leaves_obj fuel g = Some leaves \<and> a \<in> set leaves \<longrightarrow>
      is_leaf_obj (heap g) a = Some True"
    unfolding get_leaves_obj_def using gather_obj_leaves by blast
  have frame: "get_leaves_obj fuel g = Some leaves \<and> a \<in> set leaves \<and> mutates\<^sup>*\<^sup>* g g' \<longrightarrow>
      cell_at (heap g') a = cell_at (heap g) a \<and> cell_at (heap g) a \<noteq> None"
  proof
    assume a: "get_leaves_obj fuel g = Some leaves \<and> a \<in> set leaves \<and> mutates\<^sup>*\<^sup>* g g'"
    with leaves have "is_leaf_obj (heap g) a = Some True" by blast
    then obtain n where n: "deref (heap g) a = Some n" by (auto simp: is_leaf_obj_Some)
    from a have "same_cells (heap g) (heap g')" by (simp add: mutations_frame)
    then have "cell_at (heap g') a = cell_at (heap g) a" using n by (rule same_cells_cell_at)
    moreover from n have "cell_at (heap g) a \<noteq> None" by (simp add: cell_at_def)
    ultimately show "cell_at (heap g') a = cell_at (heap g) a \<and> cell_at (heap g) a \<noteq> None"
      by simp
  qed
  have live: "get_leaves_obj fuel g = Some leaves \<and> get_obj fuel' g x y = Some (Inr v, g') \<longrightarrow>
      (\<exists>b n. find_leaf_obj fuel' (heap g) (root_ref g) x y = Some b
         \<and> deref (heap g) b = Some n
         \<and> (obj_children n = None \<longrightarrow> b \<in> set leaves)
         \<and> read_obj (heap g') b = Some (cell_obj n, obj_load n + 1)
         \<and> v = obj_load n + 1)"
  proof
    assume a: "get_leaves_obj fuel g = Some leaves \<and> get_obj fuel' g x y = Some (Inr v, g')"
    then obtain b n where found: "find_leaf_obj fuel' (heap g) (root_ref g) x y = Some b"
      and n: "deref (heap g) b = Some n"
      and n': "deref (heap g') b = Some (n\<lparr>obj_load := obj_load n + 1\<rparr>)"
      and v: "v = obj_load n + 1"
      using get_obj_live by blast
    have "b \<in> set leaves" if leaf: "obj_children n = None"
    proof -
      from n leaf have "is_leaf_obj (heap g) b = Some True" by (simp add: is_leaf_obj_Some)
      with found show ?thesis
        using a unfolding get_leaves_obj_def by (blast intro: find_leaf_obj_in_gather)
    qed
    moreover from n' have "read_obj (heap g') b = Some (cell_obj n, obj_load n + 1)"
      by (simp add: read_obj_def cell_obj_def)
    ultimately have "find_leaf_obj fuel' (heap g) (root_ref g) x y = Some b
        \<and> deref (heap g) b = Some n
        \<and> (obj_children n = None \<longrightarrow> b \<in> set leaves)
        \<and> read_obj (heap g') b = Some (cell_obj n, obj_load n + 1)
        \<and> v = obj_load n + 1"
      using found n v by simp
    then show "\<exists>b n. find_leaf_obj fuel' (heap g) (root_ref g) x y = Some b
        \<and> deref (heap g) b = Some n
        \<and> (obj_children n = None \<longrightarrow> b \<in> set leaves)
        \<and> read_obj (heap g') b = Some (cell_obj n, obj_load n + 1)
        \<and> v = obj_load n + 1"
      by (intro exI)
  qed
  have get_returns: "repr (heap g) (root_ref g) t \<and> height t < fuel' \<and> 0 \<le> x \<and> x < 1
      \<and> 0 \<le> y \<and> y < 1 \<longrightarrow> (\<exists>w h. get_obj fuel' g x y = Some (Inr w, h))"
    using get_obj_returns by blast
  from returns leaves frame live get_returns show ?thesis by blast
qed

lemma fresh_obj_fields:
  "root_ref fresh_obj = 0"
  "heap fresh_obj = [\<lparr>obj_x_min = 0, obj_y_min = 0, obj_x_max = 1, obj_y_max = 1, obj_level = 0,
       obj_parent = None, obj_children = None, obj_load = 0\<rparr>]"
  "max_level_obj fresh_obj = 6" "split_threshold_obj fresh_obj = 5"
  by (simp_all add: fresh_obj_def FractalGrid_obj_init_def Node_obj_def)

lemma fresh_get_leaves: "get_leaves_obj 1 fresh_obj = Some [0]"
  by (simp add: get_leaves_obj_def fresh_obj_fields deref_def)

lemma fresh_set: "set_obj 1 fresh_obj (1 / 2) (1 / 2) = Some (Inr (), touched_obj)"
  by (simp add: set_obj_def fresh_obj_fields deref_def set_load_obj_def rebalance_obj_def
      touched_obj_def)

lemma fresh_get: "get_obj 1 fresh_obj (1 / 2) (1 / 2) = Some (Inr 1, touched_obj)"
  by (simp add: get_obj_def fresh_obj_fields deref_def set_load_obj_def touched_obj_def)

text \<open>
  Claim C1 as stated fails on a fresh default grid: \<^verbatim>\<open>get_leaves\<close> returns the root object,
  whose load is 0; after \<^verbatim>\<open>set(0.5, 0.5)\<close> the load read through that same element is 1.
\<close>

theorem get_leaves_copies_counterexample:
  "get_leaves_obj 1 fresh_obj = Some [0]
   \<and> read_obj (heap fresh_obj) 0 = Some ((0, 0, 1, 1, 0), 0)
   \<and> set_obj 1 fresh_obj (1 / 2) (1 / 2) = Some (Inr (), touched_obj)
   \<and> read_obj (heap touched_obj) 0 = Some ((0, 0, 1, 1, 0), 1)"
proof -
  have before: "read_obj (heap fresh_obj) 0 = Some ((0, 0, 1, 1, 0), 0)"
    by (simp add: read_obj_def deref_def cell_obj_def fresh_obj_fields)
  have after: "read_obj (heap touched_obj) 0 = Some ((0, 0, 1, 1, 0), 1)"
    by (simp add: read_obj_def deref_def cell_obj_def touched_obj_def)
  from fresh_get_leaves before fresh_set after show ?thesis by blast
qed

theorem get_leaves_live_references_witness:
  "repr (heap fresh_obj) (root_ref fresh_obj) (Node 0 0 1 1 0 None 0)
   \<and> height (Node 0 0 1 1 0 None 0) < 1
   \<and> get_leaves_obj 1 fresh_obj = Some [0]
   \<and> 0 \<in> set [0::nat]
   \<and> mutates\<^sup>*\<^sup>* fresh_obj touched_obj
   \<and> get_obj 1 fresh_obj (1 / 2) (1 / 2) = Some (Inr 1, touched_obj)
   \<and> (0::real) \<le> 1 / 2 \<and> (1 / 2 :: real) < 1
   \<and> (\<exists>w h. get_obj 1 fresh_obj (1 / 2) (1 / 2) = Some (Inr w, h))
   \<and> is_leaf_obj (heap fresh_obj) 0 = Some True
   \<and> cell_at (heap touched_obj) 0 = cell_at (heap fresh_obj) 0
   \<and> read_obj (heap fresh_obj) 0 = Some ((0, 0, 1, 1, 0), 0)
   \<and> read_obj (heap touched_obj) 0 = Some ((0, 0, 1, 1, 0), 1)"
proof -
  let ?t = "Node 0 0 1 1 0 None 0"
  have r: "repr (heap fresh_obj) (root_ref fresh_obj) ?t \<and> height ?t < 1"
    by (simp add: fresh_obj_fields deref_def cell_obj_def)
  have mem: "0 \<in> set [0::nat]" by simp
  have "mutates fresh_obj touched_obj" unfolding mutates_def using fresh_get by blast
  then have steps: "mutates\<^sup>*\<^sup>* fresh_obj touched_obj" by (rule r_into_rtranclp)
  note inst = get_leaves_live_references [where g = fresh_obj and t = ?t and fuel = 1
      and leaves = "[0]" and a = 0 and g' = touched_obj and fuel' = 1 and x = "1 / 2"
      and y = "1 / 2" and v = 1]
  from inst fresh_get_leaves mem have leaf: "is_leaf_obj (heap fresh_obj) 0 = Some True"
    by blast
  from inst fresh_get_leaves mem steps
  have cells: "cell_at (heap touched_obj) 0 = cell_at (heap fresh_obj) 0"
    by blast
  from inst r have "\<exists>leaves. get_leaves_obj 1 fresh_obj = Some leaves
      \<and> map (read_obj (heap fresh_obj)) leaves = map (\<lambda>n. Some (cell n, load n)) (gather ?t)"
    by blast
  then obtain ls where l1: "get_leaves_obj 1 fresh_obj = Some ls"
    and l2: "map (read_obj (heap fresh_obj)) ls = map (\<lambda>n. Some (cell n, load n)) (gather ?t)"
    by blast
  from l1 fresh_get_leaves have "ls = [0]" by simp
  with l2 have before: "read_obj (heap fresh_obj) 0 = Some ((0, 0, 1, 1, 0), 0)"
    by (simp add: gather_leaf cell_def)
  from inst fresh_get_leaves fresh_get
  have "\<exists>b n. find_leaf_obj 1 (heap fresh_obj) (root_ref fresh_obj) (1 / 2) (1 / 2) = Some b
      \<and> deref (heap fresh_obj) b = Some n
      \<and> (obj_children n = None \<longrightarrow> b \<in> set [0])
      \<and> read_obj (heap touched_obj) b = Some (cell_obj n, obj_load n + 1)
      \<and> 1 = obj_load n + 1"
    by blast
  then have after: "read_obj (heap touched_obj) 0 = Some ((0, 0, 1, 1, 0), 1)"
    by (auto simp: fresh_obj_fields deref_def cell_obj_def)
  have valid: "(0::real) \<le> 1 / 2 \<and> (1 / 2 :: real) < 1" by simp
  from inst r valid have returns: "\<exists>w h. get_obj 1 fresh_obj (1 / 2) (1 / 2) = Some (Inr w, h)"
    by blast
  from r fresh_get_leaves mem steps fresh_get valid returns leaf cells before after
  show ?thesis by blast
qed

end
